theory Spec2Isabelle
  imports Complex_Main
begin

section \<open>Python values used by the service\<close>

text \<open>
  A Python \<open>str\<close> is a sequence of code points and \<open>len\<close> counts them. Text fields
  are modelled as \<open>string\<close>, one \<open>char\<close> standing for one code point; functions that
  only cut and paste sequences (the chunking) are polymorphic in the element type, so
  what is proved about them holds for any alphabet.
\<close>

datatype exn =
    CancelledError
  | ValueError
  | IndexError
  | AttributeError
  | ValidationError string
  | RequestValidationError string
  | HTTPException nat string
  | OtherError string

text \<open>\<open>range(start, stop, step)\<close> for a positive step, as a list.\<close>

function range_from :: "nat \<Rightarrow> nat \<Rightarrow> nat \<Rightarrow> nat list" where
  "range_from i stop step =
     (if 0 < step \<and> i < stop then i # range_from (i + step) stop step else [])"
  by pat_completeness auto
termination
  by (relation "measure (\<lambda>(i, stop, step). stop - i)") auto

declare range_from.simps [simp del]

text \<open>
  \<open>range(0, n, step)\<close> for an \<open>int\<close> step: a zero step raises \<open>ValueError\<close>, a
  negative one gives the empty range (the start 0 is not above the stop).
\<close>

definition py_range0 :: "nat \<Rightarrow> int \<Rightarrow> exn + nat list" where
  "py_range0 n step =
     (if step = 0 then Inl ValueError
      else if step < 0 then Inr []
      else Inr (range_from 0 n (nat step)))"

text \<open>\<open>str(n)\<close> of a non-negative integer: its decimal digits.\<close>

definition digit_char :: "nat \<Rightarrow> char" where
  "digit_char d = ''0123456789'' ! d"

function str_nat :: "nat \<Rightarrow> string" where
  "str_nat n = (if n < 10 then [digit_char n] else str_nat (n div 10) @ [digit_char (n mod 10)])"
  by pat_completeness auto
termination
  by (relation "measure id") auto

declare str_nat.simps [simp del]

text \<open>\<open>sep.join(xs)\<close>.\<close>

fun join :: "'a list \<Rightarrow> 'a list list \<Rightarrow> 'a list" where
  "join sep [] = []"
| "join sep [x] = x"
| "join sep (x # y # ys) = x @ sep @ join sep (y # ys)"

text \<open>\<open>s.split(c)\<close> for a separator of one character: never empty, one field more
  than there are separators.\<close>

fun split_on :: "'a \<Rightarrow> 'a list \<Rightarrow> 'a list list" where
  "split_on c [] = [[]]"
| "split_on c (x # xs) =
     (if x = c then [] # split_on c xs
      else (case split_on c xs of
              [] \<Rightarrow> [[x]]
            | w # ws \<Rightarrow> (x # w) # ws))"

text \<open>\<open>xs[i]\<close> for a non-negative index: \<open>IndexError\<close> out of range.\<close>

definition index :: "'a list \<Rightarrow> nat \<Rightarrow> exn + 'a" where
  "index xs i = (if i < length xs then Inr (xs ! i) else Inl IndexError)"

definition startswith :: "'a list \<Rightarrow> 'a list \<Rightarrow> bool" where
  "startswith s p = (take (length p) s = p)"

text \<open>\<open>enumerate(xs)\<close>: the elements paired with their 0-based positions.\<close>

definition enumerate_from0 :: "'a list \<Rightarrow> (nat \<times> 'a) list" where
  "enumerate_from0 xs = zip [0..<length xs] xs"

section \<open>Transport objects (dto)\<close>

text \<open>
  The pydantic classes of \<open>graph_service/dto\<close>. Field names carry a prefix naming their
  class, since several classes use the same names. \<open>datetime\<close> values are of an
  abstract type \<open>'dt\<close>; \<open>datetime.isoformat\<close> is a parameter where it is used.
\<close>

record Result =
  message :: string
  success :: bool

text \<open>\<open>Literal['user', 'assistant', 'system']\<close>: the value is the string itself.\<close>

datatype role_type = RoleUser | RoleAssistant | RoleSystem

fun role_type_str :: "role_type \<Rightarrow> string" where
  "role_type_str RoleUser = ''user''"
| "role_type_str RoleAssistant = ''assistant''"
| "role_type_str RoleSystem = ''system''"

record 'dt Message =
  msg_content :: string
  msg_uuid :: "string option"
  msg_name :: string
  msg_role_type :: role_type
  msg_role :: "string option"
  msg_timestamp :: 'dt
  msg_source_description :: string



record 'dt AddDocumentRequest =
  doc_group_id :: string
  doc_name :: string
  doc_content :: string
  doc_source_description :: string
  doc_reference_time :: 'dt

record SearchQuery =
  group_ids :: "string list option"
  query :: string
  max_facts :: int

record CenteredSearchQuery = SearchQuery +
  center_node_uuid :: string

record AdvancedSearchRequest =
  adv_query :: string
  adv_max_facts :: int
  adv_group_ids :: "string list option"
  adv_recipe :: string

record AdvancedSearchV2Request =
  v2_query :: string
  v2_max_facts :: int
  v2_group_ids :: "string list option"
  v2_recipe :: string

record 'f SearchResults =
  facts :: "'f list"

record 'dt NodeResult =
  nr_uuid :: string
  nr_name :: string
  nr_summary :: "string option"
  nr_labels :: "string list"
  nr_created_at :: 'dt
  nr_attributes :: "(string \<times> string) list option"

record ('f, 'dt) AdvancedSearchV2Response =
  v2_facts :: "'f list"
  v2_nodes :: "'dt NodeResult list"

subsection \<open>Validation of a request body\<close>

text \<open>
  A decoded JSON body, key by key: \<open>None\<close> is an absent key, \<open>Some v\<close> a key holding
  a value of the field's type (a value of another type is refused by pydantic before
  anything below and is not modelled). A field declared with \<open>...\<close> or with no default
  is required; one declared with \<open>default=\<close> takes the default when its key is absent.
  None of the four search classes puts a bound (\<open>gt\<close>, \<open>ge\<close>) on \<open>max_facts\<close>.
\<close>

record payload =
  p_group_ids :: "string list option"
  p_query :: "string option"
  p_max_facts :: "int option"
  p_center_node_uuid :: "string option"
  p_recipe :: "string option"

definition field_default :: "'a \<Rightarrow> 'a option \<Rightarrow> 'a" where
  "field_default d v = (case v of None \<Rightarrow> d | Some x \<Rightarrow> x)"

definition field_required :: "string \<Rightarrow> 'a option \<Rightarrow> exn + 'a" where
  "field_required key v =
     (case v of None \<Rightarrow> Inl (ValidationError (key @ '': Field required'')) | Some x \<Rightarrow> Inr x)"

definition field_literal :: "string \<Rightarrow> string list \<Rightarrow> string option \<Rightarrow> exn + string" where
  "field_literal key allowed v =
     (case field_required key v of
        Inl e \<Rightarrow> Inl e
      | Inr x \<Rightarrow> if x \<in> set allowed then Inr x
                else Inl (ValidationError (key @ '': Input should be one of the literals'')))"

definition edge_recipes :: "string list" where
  "edge_recipes =
     [''EDGE_HYBRID_SEARCH_RRF'', ''EDGE_HYBRID_SEARCH_MMR'',
      ''EDGE_HYBRID_SEARCH_NODE_DISTANCE'', ''EDGE_HYBRID_SEARCH_EPISODE_MENTIONS'',
      ''EDGE_HYBRID_SEARCH_CROSS_ENCODER'']"

definition combined_recipes :: "string list" where
  "combined_recipes =
     [''COMBINED_HYBRID_SEARCH_RRF'', ''COMBINED_HYBRID_SEARCH_MMR'',
      ''COMBINED_HYBRID_SEARCH_CROSS_ENCODER'']"

definition validate_SearchQuery :: "payload \<Rightarrow> exn + SearchQuery" where
  "validate_SearchQuery p =
     (case field_required ''query'' (p_query p) of
        Inl e \<Rightarrow> Inl e
      | Inr q \<Rightarrow>
          Inr \<lparr>group_ids = p_group_ids p, query = q,
               max_facts = field_default 10 (p_max_facts p)\<rparr>)"

definition validate_CenteredSearchQuery :: "payload \<Rightarrow> exn + CenteredSearchQuery" where
  "validate_CenteredSearchQuery p =
     (case field_required ''query'' (p_query p) of
        Inl e \<Rightarrow> Inl e
      | Inr q \<Rightarrow>
          (case field_required ''center_node_uuid'' (p_center_node_uuid p) of
             Inl e \<Rightarrow> Inl e
           | Inr c \<Rightarrow>
               Inr \<lparr>group_ids = p_group_ids p, query = q,
                    max_facts = field_default 10 (p_max_facts p),
                    center_node_uuid = c\<rparr>))"

definition validate_AdvancedSearchRequest :: "payload \<Rightarrow> exn + AdvancedSearchRequest" where
  "validate_AdvancedSearchRequest p =
     (case field_required ''query'' (p_query p) of
        Inl e \<Rightarrow> Inl e
      | Inr q \<Rightarrow>
          (case field_literal ''recipe'' edge_recipes (p_recipe p) of
             Inl e \<Rightarrow> Inl e
           | Inr r \<Rightarrow>
               Inr \<lparr>adv_query = q, adv_max_facts = field_default 10 (p_max_facts p),
                    adv_group_ids = p_group_ids p, adv_recipe = r\<rparr>))"

definition validate_AdvancedSearchV2Request :: "payload \<Rightarrow> exn + AdvancedSearchV2Request" where
  "validate_AdvancedSearchV2Request p =
     (case field_required ''query'' (p_query p) of
        Inl e \<Rightarrow> Inl e
      | Inr q \<Rightarrow>
          (case field_literal ''recipe'' combined_recipes (p_recipe p) of
             Inl e \<Rightarrow> Inl e
           | Inr r \<Rightarrow>
               Inr \<lparr>v2_query = q, v2_max_facts = field_default 10 (p_max_facts p),
                    v2_group_ids = p_group_ids p, v2_recipe = r\<rparr>))"

section \<open>The authentication gate (verify\_token, the same text in both routers)\<close>

text \<open>
  \<open>api_token\<close> is \<open>os.getenv("API_TOKEN")\<close>: \<open>None\<close> when the variable is unset.
  \<open>authorization\<close> is the header, \<open>None\<close> when the request has none. An empty header
  is falsy. The token is the second field of the header split at every space; it is
  compared with \<open>api_token\<close> by \<open>!=\<close>, so no string equals an unset secret.
\<close>

definition detail_401 :: string where
  "detail_401 = ''Token ausente ou inv'' @ [CHR 0xE1] @ ''lido.''"

definition detail_403 :: string where
  "detail_403 = ''Token n'' @ [CHR 0xE3] @ ''o autorizado.''"

definition verify_token :: "string option \<Rightarrow> string option \<Rightarrow> exn + unit" where
  "verify_token api_token authorization =
     (case authorization of
        None \<Rightarrow> Inl (HTTPException 401 detail_401)
      | Some a \<Rightarrow>
          if a = [] \<or> \<not> startswith a ''Bearer '' then Inl (HTTPException 401 detail_401)
          else (case index (split_on CHR '' '' a) 1 of
                  Inl e \<Rightarrow> Inl e
                | Inr token \<Rightarrow>
                    if Some token \<noteq> api_token then Inl (HTTPException 403 detail_403)
                    else Inr ()))"

text \<open>
  Both routers are built with \<open>dependencies=[Depends(verify_token)]\<close>. The framework
  answers a request to a route in this order: for a route that takes a body it first
  reads and decodes the body, and a body that is not JSON is answered 422 (one that
  cannot be read at all, 400) before any dependency runs; then the dependencies run,
  \<open>verify_token\<close> among them, and an exception one raises is the response; then the
  decoded body is validated against the route's class; the route's function runs last.
  A route that takes no body has nothing to decode: its body is \<open>Decoded ()\<close>.
\<close>

datatype 'b raw_body = Invalid_json | Unreadable | Decoded 'b

definition call_route ::
  "string option \<Rightarrow> ('b \<Rightarrow> exn + 'q) \<Rightarrow> ('q \<Rightarrow> 's \<Rightarrow> 's \<times> (exn + 'r)) \<Rightarrow>
   string option \<Rightarrow> 'b raw_body \<Rightarrow> 's \<Rightarrow> 's \<times> (exn + 'r)" where
  "call_route api_token validate handler authorization body s =
     (case body of
        Invalid_json \<Rightarrow> (s, Inl (RequestValidationError ''json_invalid''))
      | Unreadable \<Rightarrow> (s, Inl (HTTPException 400 ''There was an error parsing the body''))
      | Decoded b \<Rightarrow>
          (case verify_token api_token authorization of
             Inl e \<Rightarrow> (s, Inl e)
           | Inr _ \<Rightarrow>
               (case validate b of
                  Inl e \<Rightarrow> (s, Inl e)
                | Inr request \<Rightarrow> handler request s)))"

section \<open>The background worker (AsyncWorker)\<close>

text \<open>
  A job is a callable of no argument whose call is awaited. What the worker sees of it
  is how the await ends: it returns (\<open>outcome = None\<close>) or raises (\<open>Some e\<close>). When the
  worker's task is cancelled while it awaits the job, the \<open>CancelledError\<close> is raised
  inside the job: a job that does not catch it lets it through to the worker
  (\<open>catches_cancel = False\<close>); a job that catches it carries on to its own end
  (\<open>catches_cancel = True\<close>).
\<close>

record 'j job =
  job_id :: 'j
  outcome :: "exn option"
  catches_cancel :: bool

datatype 'j event = Began 'j | Returned 'j | Raised 'j exn

text \<open>
  The task made from the coroutine \<open>worker\<close>: created and not yet run, suspended in
  \<open>await self.queue.get()\<close>, suspended in \<open>await job()\<close>, or finished (\<open>None\<close>: the
  loop was left by \<open>break\<close>; \<open>Some e\<close>: \<open>e\<close> left the coroutine, and awaiting the task
  raises it).
\<close>

datatype 'j task_state = Created | AtGet | InJob "'j job" | Finished "exn option"

text \<open>
  \<open>self.queue\<close> (an unbounded \<open>asyncio.Queue\<close>, first in first out) and \<open>self.task\<close>;
  \<open>history\<close> is not a field of the class: it records what the worker did, in order.
\<close>

record 'j AsyncWorker =
  queue :: "'j job list"
  task :: "'j task_state option"
  history :: "'j event list"

definition AsyncWorker_init :: "'j AsyncWorker" where
  "AsyncWorker_init = \<lparr>queue = [], task = None, history = []\<rparr>"

text \<open>\<open>self.queue.put(job)\<close>, the submission of a job.\<close>

definition put :: "'j job \<Rightarrow> 'j AsyncWorker \<Rightarrow> 'j AsyncWorker" where
  "put j w = w\<lparr>queue := queue w @ [j]\<rparr>"

definition end_event :: "'j job \<Rightarrow> 'j event" where
  "end_event j =
     (case outcome j of None \<Rightarrow> Returned (job_id j) | Some e \<Rightarrow> Raised (job_id j) e)"

text \<open>
  One resumption of the coroutine \<open>worker\<close> by the event loop:
  \<^verbatim>\<open>
  while True:
      try:
          job = await self.queue.get()
          await job()
      except asyncio.CancelledError:
          break
  \<close>
  At \<open>get\<close> it waits while the queue is empty and takes the oldest job otherwise. When
  the job's await ends, a return goes round the loop, a \<open>CancelledError\<close> is caught and
  leaves the loop, and any other exception is not caught by the \<open>except\<close> clause: it
  leaves the coroutine and the task finishes with it.
\<close>

definition worker :: "'j AsyncWorker \<Rightarrow> 'j AsyncWorker" where
  "worker w =
     (case task w of
        Some Created \<Rightarrow> w\<lparr>task := Some AtGet\<rparr>
      | Some AtGet \<Rightarrow>
          (case queue w of
             [] \<Rightarrow> w
           | j # q \<Rightarrow> w\<lparr>queue := q, task := Some (InJob j),
                         history := history w @ [Began (job_id j)]\<rparr>)
      | Some (InJob j) \<Rightarrow>
          (case outcome j of
             None \<Rightarrow> w\<lparr>task := Some AtGet, history := history w @ [end_event j]\<rparr>
           | Some CancelledError \<Rightarrow>
               w\<lparr>task := Some (Finished None), history := history w @ [end_event j]\<rparr>
           | Some e \<Rightarrow>
               w\<lparr>task := Some (Finished (Some e)), history := history w @ [end_event j]\<rparr>)
      | _ \<Rightarrow> w)"

text \<open>\<open>self.task = asyncio.create_task(self.worker())\<close>\<close>

definition start :: "'j AsyncWorker \<Rightarrow> 'j AsyncWorker" where
  "start w = w\<lparr>task := Some Created\<rparr>"

text \<open>
  \<open>self.task.cancel()\<close>, with the delivery of the \<open>CancelledError\<close> to the task. A task
  that never ran is cancelled outright: its coroutine never enters the \<open>try\<close>, and the
  task finishes with \<open>CancelledError\<close>. A task suspended at \<open>get\<close> receives the
  \<open>CancelledError\<close> inside the \<open>try\<close>, leaves the loop and returns. A task suspended
  in a job hands the \<open>CancelledError\<close> to the job: when the job lets it through, the
  worker catches it, leaves the loop and returns; when the job catches it, nothing
  changes, and the job and the loop carry on. \<open>cancel\<close> does nothing to a finished task.
\<close>

definition cancel :: "'j AsyncWorker \<Rightarrow> 'j AsyncWorker" where
  "cancel w =
     (case task w of
        Some Created \<Rightarrow> w\<lparr>task := Some (Finished (Some CancelledError))\<rparr>
      | Some AtGet \<Rightarrow> w\<lparr>task := Some (Finished None)\<rparr>
      | Some (InJob j) \<Rightarrow>
          if catches_cancel j then w
          else w\<lparr>task := Some (Finished None),
                 history := history w @ [Raised (job_id j) CancelledError]\<rparr>
      | _ \<Rightarrow> w)"

text \<open>
  \<^verbatim>\<open>
  while not self.queue.empty():
      self.queue.get_nowait()
  \<close>
\<close>

fun drain :: "'j job list \<Rightarrow> 'j job list" where
  "drain [] = []"
| "drain (j # q) = drain q"

text \<open>
  What happens to a worker from outside, one event at a time: a job is submitted, or
  the event loop resumes the worker's task.
\<close>

datatype 'j input = Put "'j job" | Resume

fun run :: "'j input list \<Rightarrow> 'j AsyncWorker \<Rightarrow> 'j AsyncWorker" where
  "run [] w = w"
| "run (Put j # ins) w = run ins (put j w)"
| "run (Resume # ins) w = run ins (worker w)"

text \<open>
  How a call of \<open>stop\<close> stands: still suspended in \<open>await self.task\<close>, returned, or
  ended by an exception.
\<close>

datatype stop_outcome = Still_awaiting | Stop_returned | Stop_raised exn

text \<open>How the task finished, if it has: \<open>Some None\<close> by returning, \<open>Some (Some e)\<close>
  with the exception \<open>e\<close>.\<close>

definition task_result :: "'j AsyncWorker \<Rightarrow> exn option option" where
  "task_result w = (case task w of Some (Finished r) \<Rightarrow> Some r | _ \<Rightarrow> None)"

text \<open>
  What \<open>stop\<close> does once \<open>await self.task\<close> is over: the await of a task that returned
  returns, and the queue is drained; the await of a task that finished with an
  exception raises it, and the \<open>while\<close> loop is not reached.
\<close>

definition after_await :: "'j AsyncWorker \<Rightarrow> exn option \<Rightarrow> 'j AsyncWorker \<times> stop_outcome" where
  "after_await w r =
     (case r of
        None \<Rightarrow> (w\<lparr>queue := drain (queue w)\<rparr>, Stop_returned)
      | Some e \<Rightarrow> (w, Stop_raised e))"

text \<open>
  \<open>await self.task\<close>: \<open>stop\<close> stays suspended until the task has finished, while the
  events \<open>ins\<close> happen to the worker; when they run out before the task has finished,
  \<open>stop\<close> is still awaiting.
\<close>

fun await_task :: "'j input list \<Rightarrow> 'j AsyncWorker \<Rightarrow> 'j AsyncWorker \<times> stop_outcome" where
  "await_task [] w =
     (case task_result w of Some r \<Rightarrow> after_await w r | None \<Rightarrow> (w, Still_awaiting))"
| "await_task (Put j # ins) w =
     (case task_result w of Some r \<Rightarrow> after_await w r | None \<Rightarrow> await_task ins (put j w))"
| "await_task (Resume # ins) w =
     (case task_result w of Some r \<Rightarrow> after_await w r | None \<Rightarrow> await_task ins (worker w))"

text \<open>
  \<^verbatim>\<open>
  if self.task:
      self.task.cancel()
      await self.task
  while not self.queue.empty():
      self.queue.get_nowait()
  \<close>
  \<open>ins\<close> is what happens to the worker while \<open>stop\<close> is suspended.
\<close>

definition stop :: "'j input list \<Rightarrow> 'j AsyncWorker \<Rightarrow> 'j AsyncWorker \<times> stop_outcome" where
  "stop ins w =
     (case task w of
        None \<Rightarrow> after_await w None
      | Some t \<Rightarrow> await_task ins (cancel w))"

text \<open>
  \<open>lifespan\<close>: the worker is started once, the application runs (\<open>ins\<close> is what happens
  to the worker meanwhile), and the worker is stopped (\<open>closing\<close> is what happens to the
  worker while \<open>stop\<close> is suspended).
\<close>

definition lifespan :: "'j input list \<Rightarrow> 'j input list \<Rightarrow> 'j AsyncWorker \<times> stop_outcome" where
  "lifespan ins closing = stop closing (run ins (start AsyncWorker_init))"

text \<open>Readings of a run: the jobs submitted, in order, and the jobs begun, in order.\<close>

fun puts :: "'j input list \<Rightarrow> 'j job list" where
  "puts [] = []"
| "puts (Put j # ins) = j # puts ins"
| "puts (Resume # ins) = puts ins"

fun began :: "'j event list \<Rightarrow> 'j list" where
  "began [] = []"
| "began (Began j # h) = j # began h"
| "began (_ # h) = began h"

definition in_flight :: "'j AsyncWorker \<Rightarrow> 'j job list" where
  "in_flight w = (case task w of Some (InJob j) \<Rightarrow> [j] | _ \<Rightarrow> [])"

text \<open>The history of jobs run one after the other, each to its end.\<close>

fun serial_history :: "'j job list \<Rightarrow> 'j event list" where
  "serial_history [] = []"
| "serial_history (j # js) = Began (job_id j) # end_event j # serial_history js"

section \<open>The ingestion router (routers/ingest.py)\<close>

text \<open>
  The state a route's function can reach: the graph engine behind \<open>graphiti\<close> (of an
  abstract type \<open>'g\<close>) and the module's \<open>async_worker\<close>.
\<close>

record ('g, 'j) service =
  graphiti :: 'g
  async_worker :: "'j AsyncWorker"

datatype EpisodeType = EpisodeType_message | EpisodeType_text | EpisodeType_json

text \<open>The keyword arguments of \<open>graphiti.add_episode\<close>.\<close>

record 'dt add_episode_args =
  name :: string
  episode_body :: string
  source :: EpisodeType
  source_description :: string
  reference_time :: 'dt
  group_id :: string

text \<open>
  A method of the engine that returns nothing: it changes the engine and may raise.
  A method that returns a value: it changes the engine and raises or returns.
\<close>

type_synonym 'g command = "'g \<Rightarrow> 'g \<times> exn option"
type_synonym ('g, 'r) engine_query = "'g \<Rightarrow> 'g \<times> (exn + 'r)"

text \<open>\<open>str(x)\<close> of an optional string inside an f-string.\<close>

definition str_optional :: "string option \<Rightarrow> string" where
  "str_optional v = (case v of None \<Rightarrow> ''None'' | Some s \<Rightarrow> s)"

definition newline :: char where
  "newline = CHR 0x0A"

text \<open>
  \<^verbatim>\<open>f"{m.role}({m.role_type}): {m.content} (Timestamp: {m.timestamp.isoformat()})"\<close>
\<close>

definition format_message :: "('dt \<Rightarrow> string) \<Rightarrow> 'dt Message \<Rightarrow> string" where
  "format_message isoformat m =
     str_optional (msg_role m) @ ''('' @ role_type_str (msg_role_type m) @ ''): '' @
     msg_content m @ '' (Timestamp: '' @ isoformat (msg_timestamp m) @ '')''"

definition conversation_text :: "('dt \<Rightarrow> string) \<Rightarrow> 'dt Message list \<Rightarrow> string" where
  "conversation_text isoformat messages =
     join [newline] (map (format_message isoformat) messages)"



subsection \<open>Documents\<close>

text \<open>
  \<^verbatim>\<open>return [texto[i:i + limite] for i in range(0, len(texto), limite)]\<close>
  A slice clamps at the end of the text, so \<open>texto[i:i + limite]\<close> is
  \<open>take limite (drop i texto)\<close> for a positive \<open>limite\<close>.
\<close>

definition dividir_em_partes :: "'a list \<Rightarrow> int \<Rightarrow> exn + 'a list list" where
  "dividir_em_partes texto limite =
     (case py_range0 (length texto) limite of
        Inl e \<Rightarrow> Inl e
      | Inr starts \<Rightarrow> Inr (map (\<lambda>i. take (nat limite) (drop i texto)) starts))"

text \<open>The default of the parameter \<open>limite\<close>.\<close>

definition limite_default :: int where
  "limite_default = 5000"

text \<open>The episode made of the part at position \<open>i\<close> of \<open>enumerate(partes)\<close>.\<close>

definition parte_episode :: "'dt AddDocumentRequest \<Rightarrow> nat \<Rightarrow> string \<Rightarrow> 'dt add_episode_args" where
  "parte_episode request i parte =
     \<lparr>name = doc_name request @ '' - Parte '' @ str_nat (i + 1),
      episode_body = parte,
      source = EpisodeType_text,
      source_description = doc_source_description request,
      reference_time = doc_reference_time request,
      group_id = doc_group_id request\<rparr>"

text \<open>
  The \<open>for\<close> loop over \<open>enumerate(partes)\<close>: each \<open>add_episode\<close> is awaited before the
  next, and the first one that raises ends the loop, the earlier parts staying added.
\<close>

fun add_partes ::
  "('dt add_episode_args \<Rightarrow> 'g command) \<Rightarrow> 'dt AddDocumentRequest \<Rightarrow>
   (nat \<times> string) list \<Rightarrow> 'g command" where
  "add_partes add_episode request [] g = (g, None)"
| "add_partes add_episode request ((i, parte) # rest) g =
     (case add_episode (parte_episode request i parte) g of
        (g', Some e) \<Rightarrow> (g', Some e)
      | (g', None) \<Rightarrow> add_partes add_episode request rest g')"

definition add_document ::
  "('dt add_episode_args \<Rightarrow> 'g command) \<Rightarrow> 'dt AddDocumentRequest \<Rightarrow>
   ('g, 'j) service \<Rightarrow> ('g, 'j) service \<times> (exn + Result)" where
  "add_document add_episode request s =
     (case dividir_em_partes (doc_content request) limite_default of
        Inl e \<Rightarrow> (s, Inl e)
      | Inr partes \<Rightarrow>
          (case add_partes add_episode request (enumerate_from0 partes) (graphiti s) of
             (g, Some e) \<Rightarrow> (s\<lparr>graphiti := g\<rparr>, Inl e)
           | (g, None) \<Rightarrow>
               (s\<lparr>graphiti := g\<rparr>,
                Inr \<lparr>message = str_nat (length partes) @
                       '' partes do documento adicionadas com sucesso ao grupo '' @
                       doc_group_id request @ ''.'',
                     success = True\<rparr>)))"



subsection \<open>Groups and the whole graph\<close>

definition delete_group ::
  "(string \<Rightarrow> 'g command) \<Rightarrow> string \<Rightarrow> ('g, 'j) service \<Rightarrow>
   ('g, 'j) service \<times> (exn + Result)" where
  "delete_group graphiti_delete_group gid s =
     (case graphiti_delete_group gid (graphiti s) of
        (g, Some e) \<Rightarrow> (s\<lparr>graphiti := g\<rparr>, Inl e)
      | (g, None) \<Rightarrow> (s\<lparr>graphiti := g\<rparr>, Inr \<lparr>message = ''Group deleted'', success = True\<rparr>))"

definition clear ::
  "'g command \<Rightarrow> 'g command \<Rightarrow> ('g, 'j) service \<Rightarrow> ('g, 'j) service \<times> (exn + Result)" where
  "clear clear_data build_indices_and_constraints s =
     (case clear_data (graphiti s) of
        (g, Some e) \<Rightarrow> (s\<lparr>graphiti := g\<rparr>, Inl e)
      | (g, None) \<Rightarrow>
          (case build_indices_and_constraints g of
             (g', Some e) \<Rightarrow> (s\<lparr>graphiti := g'\<rparr>, Inl e)
           | (g', None) \<Rightarrow>
               (s\<lparr>graphiti := g'\<rparr>, Inr \<lparr>message = ''Graph cleared'', success = True\<rparr>)))"

text \<open>
  An engine that records the episodes it is given, in order, and never raises: what a
  test double of \<open>add_episode\<close> would be.
\<close>

definition recording :: "'dt add_episode_args \<Rightarrow> ('dt add_episode_args list) command" where
  "recording episode g = (g @ [episode], None)"

section \<open>The retrieval router (routers/retrieve.py)\<close>

text \<open>
  A \<open>SearchConfig\<close> of the engine: its \<open>limit\<close>, and the rest of it (of an abstract
  type). \<open>search_config_recipes\<close> is the engine's module of named configurations, read
  with \<open>getattr\<close>: a name it does not have raises \<open>AttributeError\<close>.
\<close>

record 'c SearchConfig =
  limit :: int
  ranking :: 'c

text \<open>A node of the engine, as far as \<open>advanced_search_v2\<close> reads it: \<open>node_labels\<close> is
  \<open>None\<close> when \<open>labels\<close> is neither a list nor a tuple.\<close>

record ('dt, 'v) EntityNode =
  node_uuid :: string
  node_name :: string
  node_summary :: "string option"
  node_created_at :: 'dt
  node_labels :: "string list option"
  node_attributes :: "(string \<times> 'v) list option"

definition node_result :: "('v \<Rightarrow> string) \<Rightarrow> ('dt, 'v) EntityNode \<Rightarrow> 'dt NodeResult" where
  "node_result str_value node =
     \<lparr>nr_uuid = node_uuid node,
      nr_name = node_name node,
      nr_summary = node_summary node,
      nr_labels = (case node_labels node of Some ls \<Rightarrow> ls | None \<Rightarrow> []),
      nr_created_at = node_created_at node,
      nr_attributes =
        (case node_attributes node of
           None \<Rightarrow> None
         | Some [] \<Rightarrow> None
         | Some kvs \<Rightarrow> Some (map (\<lambda>(k, v). (k, str_value v)) kvs))\<rparr>"

text \<open>
  The engine's methods are parameters: \<open>graphiti_search\<close> is \<open>graphiti.search\<close>
  (\<open>group_ids\<close>, \<open>query\<close>, \<open>num_results\<close>, \<open>center_node_uuid\<close>, the last \<open>None\<close> when
  not passed), \<open>graphiti_search'\<close> is \<open>graphiti._search\<close> (\<open>query\<close>, \<open>group_ids\<close>,
  \<open>config\<close>) returning edges and nodes; \<open>get_fact_result_from_edge\<close> is the function of
  that name of \<open>graph_service.zep_graphiti\<close>.
\<close>

definition advanced_search ::
  "(string \<Rightarrow> 'c SearchConfig option) \<Rightarrow>
   (string \<Rightarrow> string list option \<Rightarrow> 'c SearchConfig \<Rightarrow> ('g, 'e list \<times> 'n list) engine_query) \<Rightarrow>
   ('e \<Rightarrow> 'f) \<Rightarrow> AdvancedSearchRequest \<Rightarrow> ('g, 'j) service \<Rightarrow>
   ('g, 'j) service \<times> (exn + 'f SearchResults)" where
  "advanced_search search_config_recipes graphiti_search' get_fact_result_from_edge q s =
     (case search_config_recipes (adv_recipe q) of
        None \<Rightarrow> (s, Inl AttributeError)
      | Some config \<Rightarrow>
          (case graphiti_search' (adv_query q) (adv_group_ids q) config (graphiti s) of
             (g, Inl e) \<Rightarrow> (s\<lparr>graphiti := g\<rparr>, Inl e)
           | (g, Inr (edges, nodes)) \<Rightarrow>
               (s\<lparr>graphiti := g\<rparr>, Inr \<lparr>facts = map get_fact_result_from_edge edges\<rparr>)))"

text \<open>\<open>model_copy(deep=True)\<close> gives an equal configuration of its own; \<open>config.limit =
  query.max_facts\<close> then sets the limit of the copy.\<close>

definition advanced_search_v2 ::
  "(string \<Rightarrow> 'c SearchConfig option) \<Rightarrow>
   (string \<Rightarrow> string list option \<Rightarrow> 'c SearchConfig \<Rightarrow>
      ('g, 'e list \<times> ('dt, 'v) EntityNode list) engine_query) \<Rightarrow>
   ('e \<Rightarrow> 'f) \<Rightarrow> ('v \<Rightarrow> string) \<Rightarrow> AdvancedSearchV2Request \<Rightarrow> ('g, 'j) service \<Rightarrow>
   ('g, 'j) service \<times> (exn + ('f, 'dt) AdvancedSearchV2Response)" where
  "advanced_search_v2 search_config_recipes graphiti_search' get_fact_result_from_edge str_value q s =
     (case search_config_recipes (v2_recipe q) of
        None \<Rightarrow> (s, Inl AttributeError)
      | Some recipe \<Rightarrow>
          (let config = recipe\<lparr>limit := v2_max_facts q\<rparr> in
           case graphiti_search' (v2_query q) (v2_group_ids q) config (graphiti s) of
             (g, Inl e) \<Rightarrow> (s\<lparr>graphiti := g\<rparr>, Inl e)
           | (g, Inr (edges, nodes)) \<Rightarrow>
               (s\<lparr>graphiti := g\<rparr>,
                Inr \<lparr>v2_facts = map get_fact_result_from_edge edges,
                     v2_nodes = map (node_result str_value) nodes\<rparr>)))"

definition search ::
  "(string list option \<Rightarrow> string \<Rightarrow> int \<Rightarrow> string option \<Rightarrow> ('g, 'e list) engine_query) \<Rightarrow>
   ('e \<Rightarrow> 'f) \<Rightarrow> SearchQuery \<Rightarrow> ('g, 'j) service \<Rightarrow>
   ('g, 'j) service \<times> (exn + 'f SearchResults)" where
  "search graphiti_search get_fact_result_from_edge q s =
     (case graphiti_search (group_ids q) (query q) (max_facts q) None (graphiti s) of
        (g, Inl e) \<Rightarrow> (s\<lparr>graphiti := g\<rparr>, Inl e)
      | (g, Inr relevant_edges) \<Rightarrow>
          (s\<lparr>graphiti := g\<rparr>, Inr \<lparr>facts = map get_fact_result_from_edge relevant_edges\<rparr>))"

definition search_centered ::
  "(string list option \<Rightarrow> string \<Rightarrow> int \<Rightarrow> string option \<Rightarrow> ('g, 'e list) engine_query) \<Rightarrow>
   ('e \<Rightarrow> 'f) \<Rightarrow> CenteredSearchQuery \<Rightarrow> ('g, 'j) service \<Rightarrow>
   ('g, 'j) service \<times> (exn + 'f SearchResults)" where
  "search_centered graphiti_search get_fact_result_from_edge q s =
     (case graphiti_search (group_ids q) (query q) (max_facts q)
             (Some (center_node_uuid q)) (graphiti s) of
        (g, Inl e) \<Rightarrow> (s\<lparr>graphiti := g\<rparr>, Inl e)
      | (g, Inr results) \<Rightarrow> (s\<lparr>graphiti := g\<rparr>, Inr \<lparr>facts = map get_fact_result_from_edge results\<rparr>))"

definition get_episodes ::
  "(string list \<Rightarrow> int \<Rightarrow> 'dt \<Rightarrow> ('g, 'p list) engine_query) \<Rightarrow> 'dt \<Rightarrow>
   string \<Rightarrow> int \<Rightarrow> ('g, 'j) service \<Rightarrow> ('g, 'j) service \<times> (exn + 'p list)" where
  "get_episodes retrieve_episodes now gid last_n s =
     (case retrieve_episodes [gid] last_n now (graphiti s) of
        (g, r) \<Rightarrow> (s\<lparr>graphiti := g\<rparr>, r))"

text \<open>
  Engines that record the call they are given and find nothing: test doubles of
  \<open>graphiti.search\<close> and \<open>graphiti._search\<close>.
\<close>

datatype 'c engine_call =
    Search_call "string list option" string int "string option"
  | Search_config_call string "string list option" "'c SearchConfig"

definition recording_search ::
  "string list option \<Rightarrow> string \<Rightarrow> int \<Rightarrow> string option \<Rightarrow>
   ('c engine_call list, 'e list) engine_query" where
  "recording_search gids q n c g = (g @ [Search_call gids q n c], Inr [])"

definition recording_search' ::
  "string \<Rightarrow> string list option \<Rightarrow> 'c SearchConfig \<Rightarrow>
   ('c engine_call list, 'e list \<times> 'n list) engine_query" where
  "recording_search' q gids config g = (g @ [Search_config_call q gids config], Inr ([], []))"

section \<open>Facts about the Python values\<close>

lemma range_from_lt: "k \<in> set (range_from i n c) \<Longrightarrow> k < n"
proof (induction i n c rule: range_from.induct)
  case (1 i stop step)
  from 1(2) have "0 < step \<and> i < stop \<and> (k = i \<or> k \<in> set (range_from (i + step) stop step))"
    by (subst (asm) range_from.simps) (simp split: if_splits)
  then show ?case using 1(1) by auto
qed

lemma length_range_from: "0 < c \<Longrightarrow> length (range_from i n c) = (n - i + c - 1) div c"
proof (induction i n c rule: range_from.induct)
  case (1 i stop step)
  show ?case
  proof (cases "i < stop")
    case True
    have unfold: "length (range_from i stop step) = Suc (length (range_from (i + step) stop step))"
      using True 1(2) by (subst range_from.simps) simp
    have ih: "length (range_from (i + step) stop step) = (stop - (i + step) + step - 1) div step"
      using 1 True by simp
    define X where "X = stop - (i + step) + step - 1"
    have "stop - i + step - 1 = X + step \<or> stop - i \<le> step"
      unfolding X_def by arith
    then show ?thesis
    proof
      assume a: "stop - i + step - 1 = X + step"
      have "(X + step) div step = Suc (X div step)"
        using 1(2) by simp
      then show ?thesis using unfold ih a by (simp add: X_def)
    next
      assume b: "stop - i \<le> step"
      have e1: "X = step - 1" unfolding X_def using b by arith
      have e2: "stop - i + step - 1 = step + (stop - i - 1)" using True by arith
      have e3: "stop - i - 1 < step" using b True by arith
      have "(step + (stop - i - 1)) div step = Suc 0"
        using 1(2) e3 by simp
      moreover have "X div step = 0"
        using 1(2) by (simp add: e1)
      ultimately show ?thesis using unfold ih e2 by (simp add: X_def)
    qed
  next
    case False
    then show ?thesis using 1(2) by (subst range_from.simps) simp
  qed
qed

lemma concat_slices:
  "0 < c \<Longrightarrow> concat (map (\<lambda>k. take c (drop k xs)) (range_from i (length xs) c)) = drop i xs"
proof (induction i "length xs" c rule: range_from.induct)
  case (1 i step)
  show ?case
  proof (cases "i < length xs")
    case True
    have "concat (map (\<lambda>k. take step (drop k xs)) (range_from i (length xs) step))
        = take step (drop i xs) @
          concat (map (\<lambda>k. take step (drop k xs)) (range_from (i + step) (length xs) step))"
      using True 1(2) by (subst range_from.simps) simp
    also have "\<dots> = take step (drop i xs) @ drop (i + step) xs"
      using 1 True by simp
    also have "\<dots> = take step (drop i xs) @ drop step (drop i xs)"
      by (simp add: add.commute)
    also have "\<dots> = drop i xs"
      by (rule append_take_drop_id)
    finally show ?thesis .
  next
    case False
    then show ?thesis by (subst range_from.simps) simp
  qed
qed

lemma ceil_div_nat:
  assumes c: "0 < c"
  shows "int ((n + c - 1) div c) = \<lceil>real n / real c\<rceil>"
proof -
  define q where "q = (n + c - 1) div c"
  define r where "r = (n + c - 1) mod c"
  have split: "q * c + r = n + c - 1"
    unfolding q_def r_def by simp
  have r: "r < c" unfolding r_def using c by simp
  have up: "n \<le> q * c" using split r by arith
  have lo: "q * c < n + c" using split r c by arith
  have "real n \<le> real q * real c"
    using up by (metis of_nat_le_iff of_nat_mult)
  then have le: "real n / real c \<le> real q"
    using c by (simp add: pos_divide_le_eq)
  have "real q * real c < real n + real c"
    using lo by (metis of_nat_less_iff of_nat_mult of_nat_add)
  then have "(real q - 1) * real c < real n"
    by (simp add: algebra_simps)
  then have gt: "real q - 1 < real n / real c"
    using c by (simp add: pos_less_divide_eq)
  have "\<lceil>real n / real c\<rceil> = int q"
    by (rule ceiling_unique) (use le gt in simp_all)
  then show ?thesis by (simp add: q_def)
qed

section \<open>Document chunking\<close>

text \<open>The chunking at any positive chunk size.\<close>

lemma dividir_em_partes_pos:
  assumes "0 < limite"
  shows "\<exists>partes. dividir_em_partes texto limite = Inr partes
           \<and> int (length partes) = \<lceil>real (length texto) / real_of_int limite\<rceil>
           \<and> (\<forall>p \<in> set partes. p \<noteq> [] \<and> int (length p) \<le> limite)
           \<and> concat partes = texto"
proof -
  define c where "c = nat limite"
  have c: "0 < c" and lim: "limite = int c" using assms by (simp_all add: c_def)
  define partes where "partes = map (\<lambda>i. take c (drop i texto)) (range_from 0 (length texto) c)"
  have eq: "dividir_em_partes texto limite = Inr partes"
    using assms by (simp add: dividir_em_partes_def py_range0_def partes_def c_def)
  have len: "int (length partes) = \<lceil>real (length texto) / real_of_int limite\<rceil>"
    using length_range_from [OF c, of 0 "length texto"] ceil_div_nat [OF c, of "length texto"]
    by (simp add: partes_def lim)
  have each: "\<forall>p \<in> set partes. p \<noteq> [] \<and> int (length p) \<le> limite"
    using c by (auto simp: partes_def lim dest: range_from_lt)
  have cat: "concat partes = texto"
    using concat_slices [OF c, of texto 0] by (simp add: partes_def)
  show ?thesis using eq len each cat by blast
qed

lemma add_document_empty:
  "add_document add_episode (request\<lparr>doc_content := []\<rparr>) s =
     (s, Inr \<lparr>message = ''0 partes do documento adicionadas com sucesso ao grupo '' @
                  doc_group_id request @ ''.'', success = True\<rparr>)"
  by (simp add: add_document_def dividir_em_partes_def py_range0_def limite_default_def
      range_from.simps enumerate_from0_def str_nat.simps digit_char_def)


text \<open>
  C2. For every document content of length \<open>L\<close> and the default chunk size 5000, the
  chunking returns \<open>ceil(L / 5000)\<close> parts, none empty and none longer than 5000, whose
  concatenation in order is the content. Empty content gives no part, and the route's
  answer then reports 0 parts (and no episode is added).
\<close>

theorem chunking_default:
  "(\<exists>partes. dividir_em_partes texto limite_default = Inr partes
       \<and> int (length partes) = \<lceil>real (length texto) / 5000\<rceil>
       \<and> (\<forall>p \<in> set partes. p \<noteq> [] \<and> length p \<le> 5000)
       \<and> concat partes = texto)
   \<and> dividir_em_partes ([] :: 'a list) limite_default = Inr []
   \<and> add_document add_episode (request\<lparr>doc_content := []\<rparr>) s =
       (s, Inr \<lparr>message = ''0 partes do documento adicionadas com sucesso ao grupo '' @
                    doc_group_id request @ ''.'', success = True\<rparr>)"
proof (intro conjI)
  show "\<exists>partes. dividir_em_partes texto limite_default = Inr partes
       \<and> int (length partes) = \<lceil>real (length texto) / 5000\<rceil>
       \<and> (\<forall>p \<in> set partes. p \<noteq> [] \<and> length p \<le> 5000)
       \<and> concat partes = texto"
    using dividir_em_partes_pos [of limite_default texto]
    by (simp add: limite_default_def)
  show "dividir_em_partes ([] :: 'a list) limite_default = Inr []"
    by (simp add: dividir_em_partes_def py_range0_def limite_default_def range_from.simps)
  show "add_document add_episode (request\<lparr>doc_content := []\<rparr>) s =
       (s, Inr \<lparr>message = ''0 partes do documento adicionadas com sucesso ao grupo '' @
                    doc_group_id request @ ''.'', success = True\<rparr>)"
    by (rule add_document_empty)
qed

theorem chunking_default_witness:
  "\<exists>partes. dividir_em_partes (replicate 12000 (CHR ''a'')) limite_default = Inr partes
      \<and> length partes = 3
      \<and> concat partes = replicate 12000 (CHR ''a'')"
proof -
  obtain partes where
    eq: "dividir_em_partes (replicate 12000 (CHR ''a'')) limite_default = Inr partes" and
    len: "int (length partes) = \<lceil>real (length (replicate 12000 (CHR ''a''))) / 5000\<rceil>" and
    cat: "concat partes = replicate 12000 (CHR ''a'')"
    using chunking_default [of "replicate 12000 (CHR ''a'')"] by blast
  have "\<lceil>real (length (replicate 12000 (CHR ''a''))) / 5000\<rceil> = (3 :: int)"
    by (simp add: ceiling_eq_iff)
  then have "length partes = 3" using len by simp
  then show ?thesis using eq cat by blast
qed

section \<open>The ingestion routes\<close>

lemma dividir_em_partes_default_Inr:
  "\<exists>partes. dividir_em_partes texto limite_default = Inr partes"
  by (simp add: dividir_em_partes_def py_range0_def limite_default_def)

lemma add_partes_recording:
  "add_partes recording request xs g =
     (g @ map (\<lambda>(i, parte). parte_episode request i parte) xs, None)"
  by (induction xs arbitrary: g) (auto simp: recording_def)

lemma add_document_recording:
  assumes "dividir_em_partes (doc_content request) limite_default = Inr partes"
  shows "add_document recording request s =
     (s\<lparr>graphiti := graphiti s @
           map (\<lambda>(i, parte). parte_episode request i parte) (enumerate_from0 partes)\<rparr>,
      Inr \<lparr>message = str_nat (length partes) @
             '' partes do documento adicionadas com sucesso ao grupo '' @
             doc_group_id request @ ''.'',
           success = True\<rparr>)"
  using assms by (simp add: add_document_def add_partes_recording)




lemma nth_enumerate_from0:
  "i < length xs \<Longrightarrow> enumerate_from0 xs ! i = (i, xs ! i)"
  by (simp add: enumerate_from0_def)

text \<open>
  C8, as the code has it. For every document request, the part at position \<open>i\<close>
  (counted from 0) is handed to \<open>add_episode\<close> as an episode of source \<open>text\<close> whose
  name is the request's name followed by \<open>" - Parte "\<close> (the Portuguese word, not
  \<open>" - Part "\<close>) and \<open>i + 1\<close> in decimal, whose body is the part, and which carries the
  request's source description, reference time and group. The parts are given to the
  engine in order, one call each.
\<close>

theorem document_parts_named:
  "\<exists>partes eps.
      dividir_em_partes (doc_content request) limite_default = Inr partes
    \<and> graphiti (fst (add_document recording request s)) = graphiti s @ eps
    \<and> length eps = length partes
    \<and> (\<forall>i < length partes.
          eps ! i =
            \<lparr>name = doc_name request @ '' - Parte '' @ str_nat (i + 1),
             episode_body = partes ! i,
             source = EpisodeType_text,
             source_description = doc_source_description request,
             reference_time = doc_reference_time request,
             group_id = doc_group_id request\<rparr>)"
proof -
  obtain partes where p: "dividir_em_partes (doc_content request) limite_default = Inr partes"
    using dividir_em_partes_default_Inr by blast
  define eps where
    "eps = map (\<lambda>(i, parte). parte_episode request i parte) (enumerate_from0 partes)"
  have g: "graphiti (fst (add_document recording request s)) = graphiti s @ eps"
    by (simp add: add_document_recording [OF p] eps_def)
  have len: "length eps = length partes"
    by (simp add: eps_def enumerate_from0_def)
  have each: "eps ! i = parte_episode request i (partes ! i)" if "i < length partes" for i
    using that by (simp add: eps_def enumerate_from0_def)
  show ?thesis
    using p g len each unfolding parte_episode_def by blast
qed

theorem document_parts_named_witness:
  "\<exists>eps.
      graphiti (fst (add_document recording
          \<lparr>doc_group_id = ''g1'', doc_name = ''doc'', doc_content = replicate 5001 (CHR ''a''),
           doc_source_description = ''Document ingestion'', doc_reference_time = ()\<rparr>
          \<lparr>graphiti = [], async_worker = AsyncWorker_init :: nat AsyncWorker\<rparr>)) = eps
    \<and> length eps = 2
    \<and> name (eps ! 0) = ''doc - Parte 1''
    \<and> name (eps ! 1) = ''doc - Parte 2''
    \<and> source (eps ! 1) = EpisodeType_text"
proof -
  let ?request = "\<lparr>doc_group_id = ''g1'', doc_name = ''doc'',
           doc_content = replicate 5001 (CHR ''a''),
           doc_source_description = ''Document ingestion'', doc_reference_time = ()\<rparr>"
  let ?s = "\<lparr>graphiti = [], async_worker = AsyncWorker_init :: nat AsyncWorker\<rparr>"
  obtain partes eps where
    p: "dividir_em_partes (doc_content ?request) limite_default = Inr partes" and
    g: "graphiti (fst (add_document recording ?request ?s)) = graphiti ?s @ eps" and
    len: "length eps = length partes" and
    each: "\<forall>i < length partes.
          eps ! i =
            \<lparr>name = doc_name ?request @ '' - Parte '' @ str_nat (i + 1),
             episode_body = partes ! i,
             source = EpisodeType_text,
             source_description = doc_source_description ?request,
             reference_time = doc_reference_time ?request,
             group_id = doc_group_id ?request\<rparr>"
    using document_parts_named [of ?request ?s] by blast
  obtain partes' where
    p': "dividir_em_partes (replicate 5001 (CHR ''a'')) limite_default = Inr partes'" and
    len': "int (length partes') = \<lceil>real (length (replicate 5001 (CHR ''a''))) / real_of_int limite_default\<rceil>"
    using dividir_em_partes_pos [of limite_default "replicate 5001 (CHR ''a'')"]
    by (auto simp: limite_default_def)
  have "\<lceil>real (length (replicate 5001 (CHR ''a''))) / real_of_int limite_default\<rceil> = (2 :: int)"
    by (simp add: ceiling_eq_iff limite_default_def)
  then have two: "length partes = 2" using p p' len' by simp
  have n0: "name (eps ! 0) = ''doc - Parte 1''"
    using each two by (simp add: str_nat.simps digit_char_def)
  have "eps ! 1 = \<lparr>name = doc_name ?request @ '' - Parte '' @ str_nat (1 + 1),
             episode_body = partes ! 1,
             source = EpisodeType_text,
             source_description = doc_source_description ?request,
             reference_time = doc_reference_time ?request,
             group_id = doc_group_id ?request\<rparr>"
    using each two by simp
  then have n1: "name (eps ! 1) = ''doc - Parte 2''" and s1: "source (eps ! 1) = EpisodeType_text"
    by (simp_all add: str_nat.simps digit_char_def)
  show ?thesis using g len two n0 n1 s1 by simp
qed

text \<open>
  C8 as stated fails: the only part of the document named \<open>doc\<close> with content \<open>x\<close> is
  added under the name \<open>doc - Parte 1\<close>, which is not \<open>doc - Part 1\<close>.
\<close>

theorem document_part_name_counterexample:
  "graphiti (fst (add_document recording
          \<lparr>doc_group_id = ''g1'', doc_name = ''doc'', doc_content = ''x'',
           doc_source_description = ''Document ingestion'', doc_reference_time = ()\<rparr>
          \<lparr>graphiti = [], async_worker = AsyncWorker_init :: nat AsyncWorker\<rparr>)) =
     [\<lparr>name = ''doc - Parte 1'', episode_body = ''x'', source = EpisodeType_text,
       source_description = ''Document ingestion'', reference_time = (), group_id = ''g1''\<rparr>]
   \<and> ''doc - Parte 1'' \<noteq> ''doc'' @ '' - Part '' @ str_nat 1"
  by (simp add: add_document_def dividir_em_partes_def py_range0_def limite_default_def
        range_from.simps enumerate_from0_def parte_episode_def recording_def
        str_nat.simps digit_char_def)











section \<open>Conversation flattening\<close>

lemma split_on_no_sep: "c \<notin> set x \<Longrightarrow> split_on c x = [x]"
  by (induction x) auto

lemma split_on_field: "c \<notin> set x \<Longrightarrow> split_on c (x @ c # rest) = x # split_on c rest"
  by (induction x) auto

lemma split_on_join_Cons:
  "c \<notin> set x \<Longrightarrow> \<forall>y \<in> set xs. c \<notin> set y \<Longrightarrow> split_on c (join [c] (x # xs)) = x # xs"
proof (induction xs arbitrary: x)
  case Nil
  then show ?case by (simp add: split_on_no_sep)
next
  case (Cons y ys)
  have "split_on c (join [c] (x # y # ys)) = split_on c (x @ c # join [c] (y # ys))"
    by simp
  also have "\<dots> = x # split_on c (join [c] (y # ys))"
    using Cons.prems(1) by (rule split_on_field)
  also have "\<dots> = x # y # ys"
    using Cons by simp
  finally show ?case .
qed

lemma split_on_join:
  "xs \<noteq> [] \<Longrightarrow> \<forall>x \<in> set xs. c \<notin> set x \<Longrightarrow> split_on c (join [c] xs) = xs"
  by (cases xs) (simp_all add: split_on_join_Cons)

lemma format_message_no_newline:
  assumes "newline \<notin> set (str_optional (msg_role m))"
      and "newline \<notin> set (msg_content m)"
      and "newline \<notin> set (isoformat (msg_timestamp m))"
  shows "newline \<notin> set (format_message isoformat m)"
proof -
  have "newline \<notin> set (role_type_str (msg_role_type m))"
    by (cases "msg_role_type m") (simp_all add: newline_def)
  then show ?thesis
    using assms by (simp add: format_message_def newline_def)
qed

text \<open>
  C3, as the code has it. The text of a conversation is the renderings of its messages,
  each \<open><role>(<role_type>): <content> (Timestamp: <isoformat of the timestamp>)\<close> with
  an absent role rendered \<open>None\<close>, in the order of the messages and joined by single
  newline characters; no message gives the empty text. When there is at least one
  message and no role, content or rendered timestamp holds a newline, the lines of the
  text (its fields between newlines) are exactly these renderings, one per message.
\<close>

theorem conversation_lines:
  "conversation_text isoformat [] = []
   \<and> conversation_text isoformat messages =
       join [newline]
         (map (\<lambda>m. str_optional (msg_role m) @ ''('' @ role_type_str (msg_role_type m) @
                    ''): '' @ msg_content m @ '' (Timestamp: '' @
                    isoformat (msg_timestamp m) @ '')'') messages)
   \<and> (messages \<noteq> [] \<and>
        (\<forall>m \<in> set messages.
            newline \<notin> set (str_optional (msg_role m)) \<and>
            newline \<notin> set (msg_content m) \<and>
            newline \<notin> set (isoformat (msg_timestamp m)))
        \<longrightarrow> split_on newline (conversation_text isoformat messages) =
              map (\<lambda>m. str_optional (msg_role m) @ ''('' @ role_type_str (msg_role_type m) @
                    ''): '' @ msg_content m @ '' (Timestamp: '' @
                    isoformat (msg_timestamp m) @ '')'') messages)"
proof (intro conjI impI)
  show "conversation_text isoformat [] = []"
    by (simp add: conversation_text_def)
  have fm: "format_message isoformat =
      (\<lambda>m. str_optional (msg_role m) @ ''('' @ role_type_str (msg_role_type m) @
                    ''): '' @ msg_content m @ '' (Timestamp: '' @
                    isoformat (msg_timestamp m) @ '')'')"
    by (rule ext) (simp add: format_message_def)
  show joined: "conversation_text isoformat messages =
       join [newline]
         (map (\<lambda>m. str_optional (msg_role m) @ ''('' @ role_type_str (msg_role_type m) @
                    ''): '' @ msg_content m @ '' (Timestamp: '' @
                    isoformat (msg_timestamp m) @ '')'') messages)"
    by (simp add: conversation_text_def fm)
  assume a: "messages \<noteq> [] \<and>
        (\<forall>m \<in> set messages.
            newline \<notin> set (str_optional (msg_role m)) \<and>
            newline \<notin> set (msg_content m) \<and>
            newline \<notin> set (isoformat (msg_timestamp m)))"
  have "newline \<notin> set (format_message isoformat m)" if "m \<in> set messages" for m
    using that a by (intro format_message_no_newline) blast+
  then have "\<forall>x \<in> set (map (format_message isoformat) messages). newline \<notin> set x"
    by auto
  moreover have "map (format_message isoformat) messages \<noteq> []"
    using a by simp
  ultimately have "split_on newline (join [newline] (map (format_message isoformat) messages))
      = map (format_message isoformat) messages"
    by (rule split_on_join [rotated])
  then show "split_on newline (conversation_text isoformat messages) =
              map (\<lambda>m. str_optional (msg_role m) @ ''('' @ role_type_str (msg_role_type m) @
                    ''): '' @ msg_content m @ '' (Timestamp: '' @
                    isoformat (msg_timestamp m) @ '')'') messages"
    by (simp add: conversation_text_def fm)
qed

text \<open>
  C3 as stated fails: a message whose content holds a newline gives two lines of text
  for one message, and neither is the rendering of the message.
\<close>

theorem conversation_lines_counterexample:
  "split_on newline (conversation_text (\<lambda>t. t)
      [\<lparr>msg_content = ''a'' @ [newline] @ ''b'', msg_uuid = None, msg_name = '''',
        msg_role_type = RoleUser, msg_role = Some ''bob'',
        msg_timestamp = ''2024-01-01T00:00:00'', msg_source_description = ''''\<rparr>])
   = [''bob(user): a'', ''b (Timestamp: 2024-01-01T00:00:00)'']"
  by (simp add: conversation_text_def format_message_def str_optional_def newline_def)

theorem conversation_lines_witness:
  "split_on newline (conversation_text (\<lambda>t. t)
      [\<lparr>msg_content = ''hi'', msg_uuid = None, msg_name = '''',
        msg_role_type = RoleUser, msg_role = Some ''bob'',
        msg_timestamp = ''2024-01-01T00:00:00'', msg_source_description = ''''\<rparr>,
       \<lparr>msg_content = ''hello'', msg_uuid = None, msg_name = '''',
        msg_role_type = RoleAssistant, msg_role = None,
        msg_timestamp = ''2024-01-01T00:00:01'', msg_source_description = ''''\<rparr>])
   = [''bob(user): hi (Timestamp: 2024-01-01T00:00:00)'',
      ''None(assistant): hello (Timestamp: 2024-01-01T00:00:01)'']"
proof -
  let ?ms = "[\<lparr>msg_content = ''hi'', msg_uuid = None, msg_name = '''',
        msg_role_type = RoleUser, msg_role = Some ''bob'',
        msg_timestamp = ''2024-01-01T00:00:00'', msg_source_description = ''''\<rparr>,
       \<lparr>msg_content = ''hello'', msg_uuid = None, msg_name = '''',
        msg_role_type = RoleAssistant, msg_role = None,
        msg_timestamp = ''2024-01-01T00:00:01'', msg_source_description = ''''\<rparr>]"
  have pre: "?ms \<noteq> [] \<and>
        (\<forall>m \<in> set ?ms.
            newline \<notin> set (str_optional (msg_role m)) \<and>
            newline \<notin> set (msg_content m) \<and>
            newline \<notin> set ((\<lambda>t. t) (msg_timestamp m)))"
    by (simp add: str_optional_def newline_def)
  show ?thesis
    using conversation_lines [of "\<lambda>t. t" ?ms] pre
    by (simp add: str_optional_def newline_def)
qed

section \<open>The authentication gate\<close>

lemma split_on_hd: "\<exists>ws. split_on c xs = takeWhile (\<lambda>x. x \<noteq> c) xs # ws"
  by (induction xs) (auto split: list.splits)

lemma startswith_Bearer:
  "startswith a ''Bearer '' \<Longrightarrow> a = ''Bearer'' @ CHR '' '' # drop 7 a"
proof -
  assume "startswith a ''Bearer ''"
  moreover have "length ''Bearer '' = 7" by simp
  ultimately have "take 7 a = ''Bearer ''" unfolding startswith_def by metis
  moreover have "take 7 a @ drop 7 a = a" by (rule append_take_drop_id)
  ultimately have "a = ''Bearer '' @ drop 7 a" by metis
  then show ?thesis by simp
qed

lemma token_of_header:
  assumes "startswith a ''Bearer ''"
  shows "index (split_on CHR '' '' a) 1 = Inr (takeWhile (\<lambda>x. x \<noteq> CHR '' '') (drop 7 a))"
proof -
  obtain ws where ws: "split_on CHR '' '' (drop 7 a) =
      takeWhile (\<lambda>x. x \<noteq> CHR '' '') (drop 7 a) # ws"
    using split_on_hd [of "CHR '' ''" "drop 7 a"] by auto
  have "split_on CHR '' '' a = split_on CHR '' '' (''Bearer'' @ CHR '' '' # drop 7 a)"
    using startswith_Bearer [OF assms] by simp
  also have "\<dots> = ''Bearer'' # split_on CHR '' '' (drop 7 a)"
    by (rule split_on_field) simp
  finally show ?thesis by (simp add: index_def ws)
qed

lemma verify_token_cases:
  "verify_token api_token authorization =
     (case authorization of
        None \<Rightarrow> Inl (HTTPException 401 detail_401)
      | Some a \<Rightarrow>
          if \<not> startswith a ''Bearer '' then Inl (HTTPException 401 detail_401)
          else if Some (takeWhile (\<lambda>x. x \<noteq> CHR '' '') (drop 7 a)) \<noteq> api_token
               then Inl (HTTPException 403 detail_403)
               else Inr ())"
proof (cases authorization)
  case None
  then show ?thesis by (simp add: verify_token_def)
next
  case (Some a)
  show ?thesis
  proof (cases "startswith a ''Bearer ''")
    case True
    then have "a \<noteq> []" by (auto simp: startswith_def)
    then show ?thesis
      using True Some token_of_header [OF True] by (simp add: verify_token_def)
  next
    case False
    then show ?thesis using Some by (simp add: verify_token_def)
  qed
qed

lemma verify_token_secret:
  assumes "CHR '' '' \<notin> set secret"
  shows "verify_token (Some secret) (Some (''Bearer '' @ secret)) = Inr ()"
proof -
  have "takeWhile (\<lambda>x. x \<noteq> CHR '' '') secret = secret"
    using assms by auto
  then show ?thesis
    by (simp add: verify_token_cases startswith_def)
qed

text \<open>
  C6, as the code has it. For every route (whatever its validation and its function)
  and every request whose body, where the route takes one, can be decoded: a request
  with no \<open>Authorization\<close> header, or one that does not start with \<open>"Bearer "\<close> (the
  empty header included), is answered 401 and the route's function does not run; one
  whose header starts with \<open>"Bearer "\<close> and whose token differs from the configured
  secret (always, when none is configured) is answered 403 and the route's function
  does not run; one whose token is the secret passes the gate, so that the route's
  function runs when the body is valid. The token is the text after \<open>"Bearer "\<close> up to
  the next space or the end of the header, so the header \<open>"Bearer " + secret\<close> passes
  when the secret holds no space. A request whose body cannot be decoded is answered
  422 (400 when it cannot be read) whatever its header, the gate not being reached.
\<close>

theorem auth_gate:
  "((authorization = None \<or>
      (\<exists>a. authorization = Some a \<and> \<not> startswith a ''Bearer ''))
     \<longrightarrow> call_route api_token validate handler authorization (Decoded body) s =
           (s, Inl (HTTPException 401 detail_401)))
   \<and> (\<forall>a. authorization = Some a \<and> startswith a ''Bearer '' \<and>
           Some (takeWhile (\<lambda>x. x \<noteq> CHR '' '') (drop 7 a)) \<noteq> api_token
        \<longrightarrow> call_route api_token validate handler authorization (Decoded body) s =
              (s, Inl (HTTPException 403 detail_403)))
   \<and> (\<forall>a. authorization = Some a \<and> startswith a ''Bearer '' \<and>
           Some (takeWhile (\<lambda>x. x \<noteq> CHR '' '') (drop 7 a)) = api_token
        \<longrightarrow> call_route api_token validate handler authorization (Decoded body) s =
              (case validate body of
                 Inl e \<Rightarrow> (s, Inl e)
               | Inr request \<Rightarrow> handler request s))
   \<and> (CHR '' '' \<notin> set secret
        \<longrightarrow> call_route (Some secret) validate handler (Some (''Bearer '' @ secret))
              (Decoded body) s =
              (case validate body of
                 Inl e \<Rightarrow> (s, Inl e)
               | Inr request \<Rightarrow> handler request s))
   \<and> call_route api_token validate handler authorization Invalid_json s =
       (s, Inl (RequestValidationError ''json_invalid''))
   \<and> call_route api_token validate handler authorization Unreadable s =
       (s, Inl (HTTPException 400 ''There was an error parsing the body''))"
proof (intro conjI impI allI)
  assume "authorization = None \<or> (\<exists>a. authorization = Some a \<and> \<not> startswith a ''Bearer '')"
  then show "call_route api_token validate handler authorization (Decoded body) s =
           (s, Inl (HTTPException 401 detail_401))"
    by (auto simp: call_route_def verify_token_cases)
next
  fix a
  assume "authorization = Some a \<and> startswith a ''Bearer '' \<and>
           Some (takeWhile (\<lambda>x. x \<noteq> CHR '' '') (drop 7 a)) \<noteq> api_token"
  then show "call_route api_token validate handler authorization (Decoded body) s =
              (s, Inl (HTTPException 403 detail_403))"
    by (simp add: call_route_def verify_token_cases)
next
  fix a
  assume "authorization = Some a \<and> startswith a ''Bearer '' \<and>
           Some (takeWhile (\<lambda>x. x \<noteq> CHR '' '') (drop 7 a)) = api_token"
  then show "call_route api_token validate handler authorization (Decoded body) s =
              (case validate body of
                 Inl e \<Rightarrow> (s, Inl e)
               | Inr request \<Rightarrow> handler request s)"
    by (simp add: call_route_def verify_token_cases)
next
  assume "CHR '' '' \<notin> set secret"
  then have "verify_token (Some secret) (Some (''Bearer '' @ secret)) = Inr ()"
    by (rule verify_token_secret)
  then show "call_route (Some secret) validate handler (Some (''Bearer '' @ secret))
              (Decoded body) s =
              (case validate body of
                 Inl e \<Rightarrow> (s, Inl e)
               | Inr request \<Rightarrow> handler request s)"
    by (simp add: call_route_def)
next
  show "call_route api_token validate handler authorization Invalid_json s =
       (s, Inl (RequestValidationError ''json_invalid''))"
    by (simp add: call_route_def)
next
  show "call_route api_token validate handler authorization Unreadable s =
       (s, Inl (HTTPException 400 ''There was an error parsing the body''))"
    by (simp add: call_route_def)
qed

text \<open>
  C6 as stated fails twice. With the secret \<open>a b\<close> configured, the request bearing
  exactly that secret is answered 403 and does not reach the route's function. And a
  request with no \<open>Authorization\<close> header whose body is not JSON is answered 422, not
  401.
\<close>

theorem auth_gate_counterexample:
  "verify_token (Some ''a b'') (Some ''Bearer a b'') = Inl (HTTPException 403 detail_403)
   \<and> call_route (Some ''a b'') Inr (\<lambda>request s. (Suc s, Inr request)) (Some ''Bearer a b'')
        (Decoded ()) 0
       = (0, Inl (HTTPException 403 detail_403))
   \<and> call_route (Some ''s3cret'') Inr (\<lambda>request s. (Suc s, Inr request)) None
        (Invalid_json :: unit raw_body) 0
       = (0, Inl (RequestValidationError ''json_invalid''))"
  by (simp add: call_route_def verify_token_def startswith_def index_def)

theorem auth_gate_witness:
  "call_route (Some ''s3cret'') Inr (\<lambda>request s. (Suc s, Inr request)) None (Decoded ()) 0
       = (0, Inl (HTTPException 401 detail_401))
   \<and> call_route (Some ''s3cret'') Inr (\<lambda>request s. (Suc s, Inr request))
        (Some ''Basic s3cret'') (Decoded ()) 0
       = (0, Inl (HTTPException 401 detail_401))
   \<and> call_route (Some ''s3cret'') Inr (\<lambda>request s. (Suc s, Inr request))
        (Some ''Bearer wrong'') (Decoded ()) 0
       = (0, Inl (HTTPException 403 detail_403))
   \<and> call_route (Some ''s3cret'') Inr (\<lambda>request s. (Suc s, Inr request))
        (Some ''Bearer s3cret extra'') (Decoded ()) 0
       = (1, Inr ())
   \<and> call_route (Some ''s3cret'') Inr (\<lambda>request s. (Suc s, Inr request))
        (Some ''Bearer s3cret'') (Decoded ()) 0
       = (1, Inr ())"
proof -
  let ?h = "\<lambda>(request :: unit) (s :: nat). (Suc s, Inr request :: exn + unit)"
  let ?v = "Inr :: unit \<Rightarrow> exn + unit"
  have 1: "call_route (Some ''s3cret'') ?v ?h None (Decoded ()) 0
       = (0, Inl (HTTPException 401 detail_401))"
    by (rule auth_gate [THEN conjunct1, THEN mp]) simp
  have 2: "call_route (Some ''s3cret'') ?v ?h (Some ''Basic s3cret'') (Decoded ()) 0
       = (0, Inl (HTTPException 401 detail_401))"
    by (rule auth_gate [THEN conjunct1, THEN mp]) (simp add: startswith_def)
  have 3: "call_route (Some ''s3cret'') ?v ?h (Some ''Bearer wrong'') (Decoded ()) 0
       = (0, Inl (HTTPException 403 detail_403))"
    by (rule auth_gate [THEN conjunct2, THEN conjunct1, THEN spec, THEN mp])
       (intro conjI, rule refl, simp_all add: startswith_def)
  have "call_route (Some ''s3cret'') ?v ?h (Some ''Bearer s3cret extra'') (Decoded ()) 0
       = (case ?v () of Inl e \<Rightarrow> (0, Inl e) | Inr request \<Rightarrow> ?h request 0)"
    by (rule auth_gate [THEN conjunct2, THEN conjunct2, THEN conjunct1, THEN spec, THEN mp])
       (intro conjI, rule refl, simp_all add: startswith_def)
  then have 4: "call_route (Some ''s3cret'') ?v ?h (Some ''Bearer s3cret extra'') (Decoded ()) 0
       = (1, Inr ())"
    by simp
  have "call_route (Some ''s3cret'') ?v ?h (Some (''Bearer '' @ ''s3cret'')) (Decoded ()) 0
       = (case ?v () of Inl e \<Rightarrow> (0, Inl e) | Inr request \<Rightarrow> ?h request 0)"
    by (rule auth_gate [THEN conjunct2, THEN conjunct2, THEN conjunct2, THEN conjunct1,
          THEN mp]) simp
  then have 5: "call_route (Some ''s3cret'') ?v ?h (Some ''Bearer s3cret'') (Decoded ()) 0
       = (1, Inr ())"
    by simp
  show ?thesis using 1 2 3 4 5 by (intro conjI)
qed

section \<open>The search requests\<close>

lemma search_recording:
  "search recording_search get_fact_result_from_edge q s =
     (s\<lparr>graphiti := graphiti s @ [Search_call (group_ids q) (query q) (max_facts q) None]\<rparr>,
      Inr \<lparr>facts = []\<rparr>)"
  by (simp add: search_def recording_search_def)

lemma search_centered_recording:
  "search_centered recording_search get_fact_result_from_edge q s =
     (s\<lparr>graphiti := graphiti s @
          [Search_call (group_ids q) (query q) (max_facts q) (Some (center_node_uuid q))]\<rparr>,
      Inr \<lparr>facts = []\<rparr>)"
  by (simp add: search_centered_def recording_search_def)

lemma advanced_search_recording:
  "advanced_search search_config_recipes recording_search' get_fact_result_from_edge q s =
     (case search_config_recipes (adv_recipe q) of
        None \<Rightarrow> (s, Inl AttributeError)
      | Some config \<Rightarrow>
          (s\<lparr>graphiti := graphiti s @
               [Search_config_call (adv_query q) (adv_group_ids q) config]\<rparr>,
           Inr \<lparr>facts = []\<rparr>))"
  by (simp add: advanced_search_def recording_search'_def split: option.splits)

lemma advanced_search_v2_recording:
  "advanced_search_v2 search_config_recipes recording_search' get_fact_result_from_edge
       str_value q s =
     (case search_config_recipes (v2_recipe q) of
        None \<Rightarrow> (s, Inl AttributeError)
      | Some config \<Rightarrow>
          (s\<lparr>graphiti := graphiti s @
               [Search_config_call (v2_query q) (v2_group_ids q)
                  (config\<lparr>limit := v2_max_facts q\<rparr>)]\<rparr>,
           Inr \<lparr>v2_facts = [], v2_nodes = []\<rparr>))"
  by (simp add: advanced_search_v2_def recording_search'_def split: option.splits)

text \<open>
  C9, as the code has it. In the four search classes \<open>max_facts\<close> is 10 when its key
  is absent and is otherwise the integer given, whatever its sign: no value of
  \<open>max_facts\<close> makes the validation fail (a body is refused for a missing required
  field or a recipe outside the class's literals). The plain and the centered search
  hand \<open>max_facts\<close> to the engine as \<open>num_results\<close>, unchanged.
\<close>

theorem max_facts_unbounded:
  "(p_query p = Some q \<longrightarrow>
      validate_SearchQuery (p\<lparr>p_max_facts := None\<rparr>) =
        Inr \<lparr>group_ids = p_group_ids p, query = q, max_facts = 10\<rparr>
    \<and> validate_SearchQuery (p\<lparr>p_max_facts := Some n\<rparr>) =
        Inr \<lparr>group_ids = p_group_ids p, query = q, max_facts = n\<rparr>)
   \<and> (p_query p = Some q \<and> p_center_node_uuid p = Some c \<longrightarrow>
      validate_CenteredSearchQuery (p\<lparr>p_max_facts := None\<rparr>) =
        Inr \<lparr>group_ids = p_group_ids p, query = q, max_facts = 10, center_node_uuid = c\<rparr>
    \<and> validate_CenteredSearchQuery (p\<lparr>p_max_facts := Some n\<rparr>) =
        Inr \<lparr>group_ids = p_group_ids p, query = q, max_facts = n, center_node_uuid = c\<rparr>)
   \<and> (p_query p = Some q \<and> p_recipe p = Some r \<and> r \<in> set edge_recipes \<longrightarrow>
      validate_AdvancedSearchRequest (p\<lparr>p_max_facts := None\<rparr>) =
        Inr \<lparr>adv_query = q, adv_max_facts = 10, adv_group_ids = p_group_ids p, adv_recipe = r\<rparr>
    \<and> validate_AdvancedSearchRequest (p\<lparr>p_max_facts := Some n\<rparr>) =
        Inr \<lparr>adv_query = q, adv_max_facts = n, adv_group_ids = p_group_ids p, adv_recipe = r\<rparr>)
   \<and> (p_query p = Some q \<and> p_recipe p = Some r \<and> r \<in> set combined_recipes \<longrightarrow>
      validate_AdvancedSearchV2Request (p\<lparr>p_max_facts := None\<rparr>) =
        Inr \<lparr>v2_query = q, v2_max_facts = 10, v2_group_ids = p_group_ids p, v2_recipe = r\<rparr>
    \<and> validate_AdvancedSearchV2Request (p\<lparr>p_max_facts := Some n\<rparr>) =
        Inr \<lparr>v2_query = q, v2_max_facts = n, v2_group_ids = p_group_ids p, v2_recipe = r\<rparr>)
   \<and> search recording_search get_fact_result_from_edge sq s =
       (s\<lparr>graphiti := graphiti s @
            [Search_call (group_ids sq) (query sq) (max_facts sq) None]\<rparr>,
        Inr \<lparr>facts = []\<rparr>)
   \<and> search_centered recording_search get_fact_result_from_edge cq s =
       (s\<lparr>graphiti := graphiti s @
            [Search_call (group_ids cq) (query cq) (max_facts cq) (Some (center_node_uuid cq))]\<rparr>,
        Inr \<lparr>facts = []\<rparr>)"
proof (intro conjI impI)
  show "search recording_search get_fact_result_from_edge sq s =
       (s\<lparr>graphiti := graphiti s @
            [Search_call (group_ids sq) (query sq) (max_facts sq) None]\<rparr>,
        Inr \<lparr>facts = []\<rparr>)"
    by (rule search_recording)
  show "search_centered recording_search get_fact_result_from_edge cq s =
       (s\<lparr>graphiti := graphiti s @
            [Search_call (group_ids cq) (query cq) (max_facts cq) (Some (center_node_uuid cq))]\<rparr>,
        Inr \<lparr>facts = []\<rparr>)"
    by (rule search_centered_recording)
qed (simp_all add: validate_SearchQuery_def validate_CenteredSearchQuery_def
       validate_AdvancedSearchRequest_def validate_AdvancedSearchV2Request_def
       field_required_def field_default_def field_literal_def)

text \<open>
  C9 as stated fails: \<open>max_facts = 0\<close> passes the validation of a plain search, and an
  authorised plain search with \<open>max_facts = -5\<close> reaches the engine, which is asked
  for \<open>-5\<close> results.
\<close>

theorem max_facts_unbounded_counterexample:
  "validate_SearchQuery
      \<lparr>p_group_ids = None, p_query = Some ''who'', p_max_facts = Some 0,
       p_center_node_uuid = None, p_recipe = None\<rparr>
     = Inr \<lparr>group_ids = None, query = ''who'', max_facts = 0\<rparr>
   \<and> call_route (Some ''s3cret'') validate_SearchQuery
        (search recording_search (\<lambda>edge. edge))
        (Some ''Bearer s3cret'')
        (Decoded \<lparr>p_group_ids = None, p_query = Some ''who'', p_max_facts = Some (- 5),
                  p_center_node_uuid = None, p_recipe = None\<rparr>)
        \<lparr>graphiti = [], async_worker = AsyncWorker_init :: nat AsyncWorker\<rparr>
     = (\<lparr>graphiti = [Search_call None ''who'' (- 5) None :: unit engine_call],
         async_worker = AsyncWorker_init\<rparr>,
        Inr \<lparr>facts = [] :: unit list\<rparr>)"
  by (simp add: validate_SearchQuery_def field_required_def field_default_def call_route_def
      verify_token_def startswith_def index_def search_def recording_search_def)

theorem max_facts_unbounded_witness:
  "validate_SearchQuery
      \<lparr>p_group_ids = None, p_query = Some ''who'', p_max_facts = None,
       p_center_node_uuid = Some ''n1'', p_recipe = Some ''EDGE_HYBRID_SEARCH_RRF''\<rparr>
     = Inr \<lparr>group_ids = None, query = ''who'', max_facts = 10\<rparr>
   \<and> validate_CenteredSearchQuery
      \<lparr>p_group_ids = None, p_query = Some ''who'', p_max_facts = Some (- 1),
       p_center_node_uuid = Some ''n1'', p_recipe = Some ''EDGE_HYBRID_SEARCH_RRF''\<rparr>
     = Inr \<lparr>group_ids = None, query = ''who'', max_facts = - 1, center_node_uuid = ''n1''\<rparr>
   \<and> validate_AdvancedSearchRequest
      \<lparr>p_group_ids = None, p_query = Some ''who'', p_max_facts = Some 0,
       p_center_node_uuid = Some ''n1'', p_recipe = Some ''EDGE_HYBRID_SEARCH_RRF''\<rparr>
     = Inr \<lparr>adv_query = ''who'', adv_max_facts = 0, adv_group_ids = None,
            adv_recipe = ''EDGE_HYBRID_SEARCH_RRF''\<rparr>
   \<and> validate_AdvancedSearchV2Request
      \<lparr>p_group_ids = None, p_query = Some ''who'', p_max_facts = None,
       p_center_node_uuid = Some ''n1'', p_recipe = Some ''COMBINED_HYBRID_SEARCH_MMR''\<rparr>
     = Inr \<lparr>v2_query = ''who'', v2_max_facts = 10, v2_group_ids = None,
            v2_recipe = ''COMBINED_HYBRID_SEARCH_MMR''\<rparr>"
proof -
  let ?p = "\<lparr>p_group_ids = None, p_query = Some ''who'', p_max_facts = None,
       p_center_node_uuid = Some ''n1'', p_recipe = Some ''EDGE_HYBRID_SEARCH_RRF''\<rparr>"
  let ?p2 = "\<lparr>p_group_ids = None, p_query = Some ''who'', p_max_facts = None,
       p_center_node_uuid = Some ''n1'', p_recipe = Some ''COMBINED_HYBRID_SEARCH_MMR''\<rparr>"
  have e: "''EDGE_HYBRID_SEARCH_RRF'' \<in> set edge_recipes"
    by (simp add: edge_recipes_def)
  have c: "''COMBINED_HYBRID_SEARCH_MMR'' \<in> set combined_recipes"
    by (simp add: combined_recipes_def)
  have 1: "validate_SearchQuery ?p = Inr \<lparr>group_ids = None, query = ''who'', max_facts = 10\<rparr>"
    using max_facts_unbounded [where p = "?p" and q = "''who''" and n = 0 and c = "''n1''"
        and r = "''EDGE_HYBRID_SEARCH_RRF''", THEN conjunct1] by simp
  have 2: "validate_CenteredSearchQuery (?p\<lparr>p_max_facts := Some (- 1)\<rparr>)
     = Inr \<lparr>group_ids = None, query = ''who'', max_facts = - 1, center_node_uuid = ''n1''\<rparr>"
    using max_facts_unbounded [where p = "?p" and q = "''who''" and n = "- 1" and c = "''n1''"
        and r = "''EDGE_HYBRID_SEARCH_RRF''", THEN conjunct2, THEN conjunct1] by simp
  have 3: "validate_AdvancedSearchRequest (?p\<lparr>p_max_facts := Some 0\<rparr>)
     = Inr \<lparr>adv_query = ''who'', adv_max_facts = 0, adv_group_ids = None,
            adv_recipe = ''EDGE_HYBRID_SEARCH_RRF''\<rparr>"
    using max_facts_unbounded [where p = "?p" and q = "''who''" and n = 0 and c = "''n1''"
        and r = "''EDGE_HYBRID_SEARCH_RRF''", THEN conjunct2, THEN conjunct2, THEN conjunct1] e
    by simp
  have 4: "validate_AdvancedSearchV2Request ?p2
     = Inr \<lparr>v2_query = ''who'', v2_max_facts = 10, v2_group_ids = None,
            v2_recipe = ''COMBINED_HYBRID_SEARCH_MMR''\<rparr>"
    using max_facts_unbounded [where p = "?p2" and q = "''who''" and n = 0 and c = "''n1''"
        and r = "''COMBINED_HYBRID_SEARCH_MMR''",
        THEN conjunct2, THEN conjunct2, THEN conjunct2, THEN conjunct1] c
    by simp
  show ?thesis using 1 2 3 4 by simp
qed

section \<open>Advanced search\<close>

lemma advanced_search_ignores_max_facts:
  assumes "adv_query qa = adv_query qb" "adv_group_ids qa = adv_group_ids qb"
    "adv_recipe qa = adv_recipe qb"
  shows "advanced_search search_config_recipes graphiti_search' get_fact_result_from_edge qa s =
         advanced_search search_config_recipes graphiti_search' get_fact_result_from_edge qb s"
  unfolding advanced_search_def assms ..

text \<open>
  C10. Two requests to \<open>/retrieve/search/advanced\<close> that agree on the query, the group
  ids and the recipe (they differ at most in \<open>max_facts\<close>) have the same outcome, for
  any engine and from any state: the same state after and the same answer or
  exception. The call the engine receives carries the query, the group ids and the
  recipe's configuration as \<open>search_config_recipes\<close> holds it, its limit untouched.
  The advanced-v2 route instead passes the recipe's configuration with its limit set to
  the request's \<open>max_facts\<close>.
\<close>

theorem advanced_search_max_facts_unused:
  "(adv_query qa = adv_query qb \<and> adv_group_ids qa = adv_group_ids qb \<and>
    adv_recipe qa = adv_recipe qb
      \<longrightarrow> advanced_search search_config_recipes graphiti_search' get_fact_result_from_edge qa s =
          advanced_search search_config_recipes graphiti_search' get_fact_result_from_edge qb s)
   \<and> (search_config_recipes (adv_recipe qa) = Some config
      \<longrightarrow> advanced_search search_config_recipes recording_search' get_fact_result_from_edge qa r =
            (r\<lparr>graphiti := graphiti r @
                 [Search_config_call (adv_query qa) (adv_group_ids qa) config]\<rparr>,
             Inr \<lparr>facts = []\<rparr>))
   \<and> (search_config_recipes (v2_recipe q) = Some config
      \<longrightarrow> advanced_search_v2 search_config_recipes recording_search' get_fact_result_from_edge
              str_value q r =
            (r\<lparr>graphiti := graphiti r @
                 [Search_config_call (v2_query q) (v2_group_ids q)
                    (config\<lparr>limit := v2_max_facts q\<rparr>)]\<rparr>,
             Inr \<lparr>v2_facts = [], v2_nodes = []\<rparr>))"
proof (intro conjI impI)
  assume "adv_query qa = adv_query qb \<and> adv_group_ids qa = adv_group_ids qb \<and>
    adv_recipe qa = adv_recipe qb"
  then show "advanced_search search_config_recipes graphiti_search' get_fact_result_from_edge qa s =
          advanced_search search_config_recipes graphiti_search' get_fact_result_from_edge qb s"
    by (intro advanced_search_ignores_max_facts) simp_all
next
  assume "search_config_recipes (adv_recipe qa) = Some config"
  then show "advanced_search search_config_recipes recording_search' get_fact_result_from_edge qa r =
            (r\<lparr>graphiti := graphiti r @
                 [Search_config_call (adv_query qa) (adv_group_ids qa) config]\<rparr>,
             Inr \<lparr>facts = []\<rparr>)"
    by (simp add: advanced_search_recording)
next
  assume "search_config_recipes (v2_recipe q) = Some config"
  then show "advanced_search_v2 search_config_recipes recording_search' get_fact_result_from_edge
              str_value q r =
            (r\<lparr>graphiti := graphiti r @
                 [Search_config_call (v2_query q) (v2_group_ids q)
                    (config\<lparr>limit := v2_max_facts q\<rparr>)]\<rparr>,
             Inr \<lparr>v2_facts = [], v2_nodes = []\<rparr>)"
    by (simp add: advanced_search_v2_recording)
qed

theorem advanced_search_max_facts_unused_witness:
  "advanced_search (\<lambda>recipe. Some \<lparr>limit = 10, ranking = recipe\<rparr>)
      (recording_search' :: _ \<Rightarrow> _ \<Rightarrow> _ \<Rightarrow> (_, unit list \<times> unit list) engine_query)
      (\<lambda>edge. edge)
      \<lparr>adv_query = ''who'', adv_max_facts = 1, adv_group_ids = Some [''g1''],
       adv_recipe = ''EDGE_HYBRID_SEARCH_RRF''\<rparr>
      \<lparr>graphiti = [], async_worker = AsyncWorker_init :: nat AsyncWorker\<rparr>
   = advanced_search (\<lambda>recipe. Some \<lparr>limit = 10, ranking = recipe\<rparr>)
      (recording_search' :: _ \<Rightarrow> _ \<Rightarrow> _ \<Rightarrow> (_, unit list \<times> unit list) engine_query)
      (\<lambda>edge. edge)
      \<lparr>adv_query = ''who'', adv_max_facts = 100, adv_group_ids = Some [''g1''],
       adv_recipe = ''EDGE_HYBRID_SEARCH_RRF''\<rparr>
      \<lparr>graphiti = [], async_worker = AsyncWorker_init :: nat AsyncWorker\<rparr>
   \<and> fst (advanced_search (\<lambda>recipe. Some \<lparr>limit = 10, ranking = recipe\<rparr>)
      (recording_search' :: _ \<Rightarrow> _ \<Rightarrow> _ \<Rightarrow> (_, unit list \<times> unit list) engine_query)
      (\<lambda>edge. edge)
      \<lparr>adv_query = ''who'', adv_max_facts = 1, adv_group_ids = Some [''g1''],
       adv_recipe = ''EDGE_HYBRID_SEARCH_RRF''\<rparr>
      \<lparr>graphiti = [], async_worker = AsyncWorker_init :: nat AsyncWorker\<rparr>)
     = \<lparr>graphiti = [Search_config_call ''who'' (Some [''g1''])
                       \<lparr>limit = 10, ranking = ''EDGE_HYBRID_SEARCH_RRF''\<rparr>],
        async_worker = AsyncWorker_init\<rparr>
   \<and> fst (advanced_search_v2 (\<lambda>recipe. Some \<lparr>limit = 10, ranking = recipe\<rparr>)
      (recording_search' :: _ \<Rightarrow> _ \<Rightarrow> _ \<Rightarrow> (_, unit list \<times> (unit, unit) EntityNode list) engine_query)
      (\<lambda>edge. edge) (\<lambda>v. ''v'')
      \<lparr>v2_query = ''who'', v2_max_facts = 100, v2_group_ids = Some [''g1''],
       v2_recipe = ''COMBINED_HYBRID_SEARCH_RRF''\<rparr>
      \<lparr>graphiti = [], async_worker = AsyncWorker_init :: nat AsyncWorker\<rparr>)
     = \<lparr>graphiti = [Search_config_call ''who'' (Some [''g1''])
                       \<lparr>limit = 100, ranking = ''COMBINED_HYBRID_SEARCH_RRF''\<rparr>],
        async_worker = AsyncWorker_init\<rparr>"
proof -
  let ?recipes = "\<lambda>recipe :: string. Some \<lparr>limit = 10, ranking = recipe\<rparr>"
  let ?engine = "recording_search' :: string \<Rightarrow> string list option \<Rightarrow> string SearchConfig \<Rightarrow>
      (string engine_call list, unit list \<times> unit list) engine_query"
  let ?engine2 = "recording_search' :: string \<Rightarrow> string list option \<Rightarrow> string SearchConfig \<Rightarrow>
      (string engine_call list, unit list \<times> (unit, unit) EntityNode list) engine_query"
  let ?fact = "\<lambda>edge :: unit. edge"
  let ?q1 = "\<lparr>adv_query = ''who'', adv_max_facts = 1, adv_group_ids = Some [''g1''],
       adv_recipe = ''EDGE_HYBRID_SEARCH_RRF''\<rparr>"
  let ?q2 = "\<lparr>adv_query = ''who'', adv_max_facts = 100, adv_group_ids = Some [''g1''],
       adv_recipe = ''EDGE_HYBRID_SEARCH_RRF''\<rparr>"
  let ?q = "\<lparr>v2_query = ''who'', v2_max_facts = 100, v2_group_ids = Some [''g1''],
       v2_recipe = ''COMBINED_HYBRID_SEARCH_RRF''\<rparr>"
  let ?s = "\<lparr>graphiti = [] :: string engine_call list,
             async_worker = AsyncWorker_init :: nat AsyncWorker\<rparr>"
  have 1: "advanced_search ?recipes ?engine ?fact ?q1 ?s =
           advanced_search ?recipes ?engine ?fact ?q2 ?s"
    by (rule advanced_search_max_facts_unused [THEN conjunct1, THEN mp]) simp
  have "advanced_search ?recipes ?engine ?fact ?q1 ?s =
          (?s\<lparr>graphiti := graphiti ?s @
              [Search_config_call (adv_query ?q1) (adv_group_ids ?q1)
                 \<lparr>limit = 10, ranking = ''EDGE_HYBRID_SEARCH_RRF''\<rparr>]\<rparr>,
           Inr \<lparr>facts = []\<rparr>)"
    by (rule advanced_search_max_facts_unused [THEN conjunct2, THEN conjunct1, THEN mp]) simp
  then have 2: "fst (advanced_search ?recipes ?engine ?fact ?q1 ?s)
     = \<lparr>graphiti = [Search_config_call ''who'' (Some [''g1''])
                       \<lparr>limit = 10, ranking = ''EDGE_HYBRID_SEARCH_RRF''\<rparr>],
        async_worker = AsyncWorker_init\<rparr>"
    by simp
  have "advanced_search_v2 ?recipes ?engine2 ?fact (\<lambda>v. ''v'') ?q ?s =
          (?s\<lparr>graphiti := graphiti ?s @
              [Search_config_call (v2_query ?q) (v2_group_ids ?q)
                 (\<lparr>limit = 10, ranking = ''COMBINED_HYBRID_SEARCH_RRF''\<rparr>
                    \<lparr>limit := v2_max_facts ?q\<rparr>)]\<rparr>,
           Inr \<lparr>v2_facts = [], v2_nodes = []\<rparr>)"
    by (rule advanced_search_max_facts_unused [THEN conjunct2, THEN conjunct2, THEN mp]) simp
  then have 3: "fst (advanced_search_v2 ?recipes ?engine2 ?fact (\<lambda>v. ''v'') ?q ?s)
     = \<lparr>graphiti = [Search_config_call ''who'' (Some [''g1''])
                       \<lparr>limit = 100, ranking = ''COMBINED_HYBRID_SEARCH_RRF''\<rparr>],
        async_worker = AsyncWorker_init\<rparr>"
    by simp
  show ?thesis using 1 2 3 by simp
qed

section \<open>The background worker\<close>

lemma serial_history_append:
  "serial_history (xs @ ys) = serial_history xs @ serial_history ys"
  by (induction xs) simp_all

lemma began_append: "began (h @ k) = began h @ began k"
  by (induction h rule: began.induct) simp_all

lemma began_end_event: "began [end_event j] = []"
  by (simp add: end_event_def split: option.splits)

lemma drain_empty: "drain q = []"
  by (induction q) simp_all

lemma in_flight_cases:
  "in_flight w = (case task w of Some (InJob j) \<Rightarrow> [j] | _ \<Rightarrow> [])"
  by (simp add: in_flight_def)

text \<open>One step keeps the shape of a serial run.\<close>

lemma put_serial:
  assumes "subs = finished @ in_flight w @ queue w"
      and "history w = serial_history finished @ map (\<lambda>j. Began (job_id j)) (in_flight w)"
  shows "subs @ [j] = finished @ in_flight (put j w) @ queue (put j w)
         \<and> history (put j w) =
             serial_history finished @ map (\<lambda>j. Began (job_id j)) (in_flight (put j w))"
  using assms by (simp add: put_def in_flight_def)

lemma worker_serial:
  assumes "subs = finished @ in_flight w @ queue w"
      and "history w = serial_history finished @ map (\<lambda>j. Began (job_id j)) (in_flight w)"
  shows "\<exists>finished'. subs = finished' @ in_flight (worker w) @ queue (worker w)
         \<and> history (worker w) =
             serial_history finished' @ map (\<lambda>j. Began (job_id j)) (in_flight (worker w))"
proof (cases "task w")
  case None
  then have "worker w = w" by (simp add: worker_def)
  then show ?thesis using assms by auto
next
  case (Some t)
  show ?thesis
  proof (cases t)
    case Created
    then have "in_flight w = []" "in_flight (worker w) = []" "queue (worker w) = queue w"
      "history (worker w) = history w"
      using Some by (simp_all add: worker_def in_flight_def)
    then show ?thesis using assms by auto
  next
    case AtGet
    show ?thesis
    proof (cases "queue w")
      case Nil
      then have "worker w = w" using Some AtGet by (simp add: worker_def)
      then show ?thesis using assms by auto
    next
      case (Cons j q)
      then have "in_flight w = []" "in_flight (worker w) = [j]" "queue (worker w) = q"
        "history (worker w) = history w @ [Began (job_id j)]"
        using Some AtGet by (simp_all add: worker_def in_flight_def)
      then show ?thesis using assms Cons by auto
    qed
  next
    case (InJob j)
    then have a: "in_flight w = [j]" "in_flight (worker w) = []" "queue (worker w) = queue w"
      "history (worker w) = history w @ [end_event j]"
      using Some by (auto simp: worker_def in_flight_def split: option.splits exn.splits)
    have "subs = (finished @ [j]) @ in_flight (worker w) @ queue (worker w)"
      using assms a by simp
    moreover have "history (worker w) =
        serial_history (finished @ [j]) @ map (\<lambda>j. Began (job_id j)) (in_flight (worker w))"
      using assms a by (simp add: serial_history_append)
    ultimately show ?thesis by blast
  next
    case (Finished r)
    then have "worker w = w" using Some by (simp add: worker_def)
    then show ?thesis using assms by auto
  qed
qed

lemma run_serial:
  assumes "subs = finished @ in_flight w @ queue w"
      and "history w = serial_history finished @ map (\<lambda>j. Began (job_id j)) (in_flight w)"
  shows "\<exists>finished'. subs @ puts ins = finished' @ in_flight (run ins w) @ queue (run ins w)
         \<and> history (run ins w) =
             serial_history finished' @ map (\<lambda>j. Began (job_id j)) (in_flight (run ins w))"
  using assms
proof (induction ins w arbitrary: subs finished rule: run.induct)
  case (1 w)
  then show ?case by auto
next
  case (2 j ins w)
  from put_serial [OF 2(2) 2(3), of j]
  have "\<exists>finished'. (subs @ [j]) @ puts ins =
            finished' @ in_flight (run ins (put j w)) @ queue (run ins (put j w))
         \<and> history (run ins (put j w)) =
             serial_history finished' @
             map (\<lambda>j. Began (job_id j)) (in_flight (run ins (put j w)))"
    by (intro 2(1)) simp_all
  then show ?case by simp
next
  case (3 ins w)
  from worker_serial [OF 3(2) 3(3)] obtain finished' where
    "subs = finished' @ in_flight (worker w) @ queue (worker w)"
    "history (worker w) =
       serial_history finished' @ map (\<lambda>j. Began (job_id j)) (in_flight (worker w))"
    by blast
  then have "\<exists>finished''. subs @ puts ins =
            finished'' @ in_flight (run ins (worker w)) @ queue (run ins (worker w))
         \<and> history (run ins (worker w)) =
             serial_history finished'' @
             map (\<lambda>j. Began (job_id j)) (in_flight (run ins (worker w)))"
    by (rule 3(1))
  then show ?case by simp
qed

text \<open>
  C4. Whatever is submitted and however the event loop interleaves the submissions with
  the worker's steps, after \<open>lifespan\<close> has started the worker: the jobs submitted so
  far are, in submission order, the jobs the worker has run to their end, then the job
  it is running (at most one), then the jobs still queued; and the worker's history is
  that of the finished jobs run one after the other, each begun and ended before the
  next begins, followed by the beginning of the job in flight. So jobs are taken first
  in first out, no two are ever in flight together, and none is reordered.
\<close>

theorem worker_serial_fifo:
  "\<exists>finished.
      puts ins = finished @ in_flight (run ins (start AsyncWorker_init)) @
                 queue (run ins (start AsyncWorker_init))
    \<and> history (run ins (start AsyncWorker_init)) =
        serial_history finished @
        map (\<lambda>j. Began (job_id j)) (in_flight (run ins (start AsyncWorker_init)))
    \<and> length (in_flight (run ins (start AsyncWorker_init))) \<le> 1"
proof -
  have "\<exists>finished'. [] @ puts ins =
          finished' @ in_flight (run ins (start AsyncWorker_init)) @
          queue (run ins (start AsyncWorker_init))
         \<and> history (run ins (start AsyncWorker_init)) =
             serial_history finished' @
             map (\<lambda>j. Began (job_id j)) (in_flight (run ins (start AsyncWorker_init)))"
    by (rule run_serial [where finished = "[]"])
       (simp_all add: start_def AsyncWorker_init_def in_flight_def)
  moreover have "length (in_flight (run ins (start AsyncWorker_init))) \<le> 1"
    by (simp add: in_flight_def split: option.splits task_state.splits)
  ultimately show ?thesis by auto
qed

theorem worker_serial_fifo_witness:
  "history (run [Put \<lparr>job_id = 1, outcome = None, catches_cancel = False\<rparr>, Put \<lparr>job_id = 2, outcome = None, catches_cancel = False\<rparr>,
                 Resume, Resume, Resume, Resume,
                 Put \<lparr>job_id = 3, outcome = None, catches_cancel = False\<rparr>, Resume]
              (start (AsyncWorker_init :: nat AsyncWorker)))
     = [Began 1, Returned 1, Began 2, Returned 2]
   \<and> queue (run [Put \<lparr>job_id = 1, outcome = None, catches_cancel = False\<rparr>, Put \<lparr>job_id = 2, outcome = None, catches_cancel = False\<rparr>,
                 Resume, Resume, Resume, Resume,
                 Put \<lparr>job_id = 3, outcome = None, catches_cancel = False\<rparr>, Resume]
              (start (AsyncWorker_init :: nat AsyncWorker)))
     = [\<lparr>job_id = 3, outcome = None, catches_cancel = False\<rparr>]
   \<and> (\<exists>finished.
        [\<lparr>job_id = 1, outcome = None, catches_cancel = False\<rparr>, \<lparr>job_id = 2, outcome = None, catches_cancel = False\<rparr>,
         \<lparr>job_id = 3 :: nat, outcome = None, catches_cancel = False\<rparr>] = finished @ [\<lparr>job_id = 3, outcome = None, catches_cancel = False\<rparr>]
        \<and> [Began 1, Returned 1, Began 2, Returned 2] = serial_history finished)"
  using worker_serial_fifo [of "[Put \<lparr>job_id = 1 :: nat, outcome = None, catches_cancel = False\<rparr>,
                 Put \<lparr>job_id = 2, outcome = None, catches_cancel = False\<rparr>,
                 Resume, Resume, Resume, Resume,
                 Put \<lparr>job_id = 3, outcome = None, catches_cancel = False\<rparr>, Resume]"]
  by (simp add: start_def AsyncWorker_init_def put_def worker_def end_event_def in_flight_def)

section \<open>A job that raises\<close>

lemma run_Finished:
  "task w = Some (Finished r) \<Longrightarrow> run ins w = w\<lparr>queue := queue w @ puts ins\<rparr>"
proof (induction ins w rule: run.induct)
  case (1 w)
  then show ?case by simp
next
  case (2 j ins w)
  then show ?case by (simp add: put_def)
next
  case (3 ins w)
  then have "worker w = w" by (simp add: worker_def)
  then show ?case using 3 by simp
qed

lemma run_not_started:
  "task w = None \<Longrightarrow> run ins w = w\<lparr>queue := queue w @ puts ins\<rparr>"
proof (induction ins w rule: run.induct)
  case (1 w)
  then show ?case by simp
next
  case (2 j ins w)
  then show ?case by (simp add: put_def)
next
  case (3 ins w)
  then have "worker w = w" by (simp add: worker_def)
  then show ?case using 3 by simp
qed


lemma cancel_Finished: "task w = Some (Finished r) \<Longrightarrow> cancel w = w"
  by (simp add: cancel_def)

lemma await_task_Finished:
  "task w = Some (Finished r) \<Longrightarrow> await_task ins w = after_await w r"
proof (cases ins)
  case Nil
  assume "task w = Some (Finished r)"
  then show ?thesis using Nil by (simp add: task_result_def)
next
  case (Cons i rest)
  assume "task w = Some (Finished r)"
  then show ?thesis using Cons by (cases i) (simp_all add: task_result_def)
qed

lemma stop_Finished:
  "task w = Some (Finished r) \<Longrightarrow> stop ins w = after_await w r"
  by (simp add: stop_def cancel_Finished await_task_Finished)




section \<open>Stopping the worker\<close>

lemma stop_not_started:
  "task w = None \<Longrightarrow> stop closing w = (w\<lparr>queue := []\<rparr>, Stop_returned)"
  by (simp add: stop_def after_await_def drain_empty)

lemma stop_Created:
  "task w = Some Created \<Longrightarrow>
     stop closing w =
       (w\<lparr>task := Some (Finished (Some CancelledError))\<rparr>, Stop_raised CancelledError)"
  by (simp add: stop_def cancel_def await_task_Finished after_await_def)

lemma stop_AtGet:
  "task w = Some AtGet \<Longrightarrow>
     stop closing w = (w\<lparr>task := Some (Finished None), queue := []\<rparr>, Stop_returned)"
  by (simp add: stop_def cancel_def await_task_Finished after_await_def drain_empty)

lemma stop_InJob:
  "task w = Some (InJob j) \<Longrightarrow> \<not> catches_cancel j \<Longrightarrow>
     stop closing w =
       (w\<lparr>task := Some (Finished None),
          history := history w @ [Raised (job_id j) CancelledError],
          queue := []\<rparr>, Stop_returned)"
  by (simp add: stop_def cancel_def await_task_Finished after_await_def drain_empty)

lemma stop_Finished_returned:
  "task w = Some (Finished None) \<Longrightarrow> stop closing w = (w\<lparr>queue := []\<rparr>, Stop_returned)"
  by (simp add: stop_Finished after_await_def drain_empty)

lemma stop_Finished_raised:
  "task w = Some (Finished (Some e)) \<Longrightarrow> stop closing w = (w, Stop_raised e)"
  by (simp add: stop_Finished after_await_def)

lemma run_history_idle:
  "task w = None \<or> (\<exists>r. task w = Some (Finished r)) \<Longrightarrow> history (run ins w) = history w"
  by (auto simp: run_not_started run_Finished)

lemma stop_facts:
  assumes "\<forall>j. task w = Some (InJob j) \<longrightarrow> \<not> catches_cancel j"
  shows "snd (stop closing w) \<noteq> Still_awaiting"
    and "task (fst (stop closing w)) = None \<or> (\<exists>r. task (fst (stop closing w)) = Some (Finished r))"
    and "history (fst (stop closing w)) =
           history w @ map (\<lambda>j. Raised (job_id j) CancelledError) (in_flight w)"
    and "task w \<noteq> Some Created \<and> (\<forall>e. task w \<noteq> Some (Finished (Some e))) \<longrightarrow>
           snd (stop closing w) = Stop_returned \<and> queue (fst (stop closing w)) = []"
proof -
  consider "task w = None" | "task w = Some Created" | "task w = Some AtGet"
    | j where "task w = Some (InJob j)" "\<not> catches_cancel j"
    | "task w = Some (Finished None)" | e where "task w = Some (Finished (Some e))"
  proof (cases "task w")
    case None
    then show ?thesis using that by blast
  next
    case (Some t)
    show ?thesis
    proof (cases t)
      case Created
      then show ?thesis using Some that by blast
    next
      case AtGet
      then show ?thesis using Some that by blast
    next
      case (InJob j)
      then show ?thesis using Some assms that by blast
    next
      case (Finished r)
      then show ?thesis using Some that by (cases r) blast+
    qed
  qed
  then have "snd (stop closing w) \<noteq> Still_awaiting
    \<and> (task (fst (stop closing w)) = None \<or>
       (\<exists>r. task (fst (stop closing w)) = Some (Finished r)))
    \<and> history (fst (stop closing w)) =
           history w @ map (\<lambda>j. Raised (job_id j) CancelledError) (in_flight w)
    \<and> (task w \<noteq> Some Created \<and> (\<forall>e. task w \<noteq> Some (Finished (Some e))) \<longrightarrow>
           snd (stop closing w) = Stop_returned \<and> queue (fst (stop closing w)) = [])"
  proof cases
    case 1
    then show ?thesis by (simp add: stop_not_started in_flight_def)
  next
    case 2
    then show ?thesis by (simp add: stop_Created in_flight_def)
  next
    case 3
    then show ?thesis by (simp add: stop_AtGet in_flight_def)
  next
    case 4
    then show ?thesis by (simp add: stop_InJob in_flight_def)
  next
    case 5
    then show ?thesis by (simp add: stop_Finished_returned in_flight_def)
  next
    case 6
    then show ?thesis by (simp add: stop_Finished_raised in_flight_def)
  qed
  then show "snd (stop closing w) \<noteq> Still_awaiting"
    and "task (fst (stop closing w)) = None \<or> (\<exists>r. task (fst (stop closing w)) = Some (Finished r))"
    and "history (fst (stop closing w)) =
           history w @ map (\<lambda>j. Raised (job_id j) CancelledError) (in_flight w)"
    and "task w \<noteq> Some Created \<and> (\<forall>e. task w \<noteq> Some (Finished (Some e))) \<longrightarrow>
           snd (stop closing w) = Stop_returned \<and> queue (fst (stop closing w)) = []"
    by blast+
qed

text \<open>
  C7, as the code has it. From any state of the worker in which the job in flight, if
  there is one, lets a cancellation through: \<open>stop\<close> does not stay suspended, whatever
  happens meanwhile; after it no job is ever begun, whatever is submitted and however
  often the event loop runs; what the worker did before stays as it was, the history
  growing only by the cancellation of the job in flight; and when the task is waiting
  for a job, is inside one, has left its loop, or was never created, \<open>stop\<close> returns
  and has emptied the queue without running its jobs.
\<close>

theorem nothing_begins_after_stop:
  "(\<forall>j. task w = Some (InJob j) \<longrightarrow> \<not> catches_cancel j) \<longrightarrow>
     snd (stop closing w) \<noteq> Still_awaiting
   \<and> began (history (run ins (fst (stop closing w)))) = began (history w)
   \<and> history (run ins (fst (stop closing w))) =
       history w @ map (\<lambda>j. Raised (job_id j) CancelledError) (in_flight w)
   \<and> (task w \<noteq> Some Created \<and> (\<forall>e. task w \<noteq> Some (Finished (Some e))) \<longrightarrow>
        snd (stop closing w) = Stop_returned \<and> queue (fst (stop closing w)) = [])"
proof
  assume a: "\<forall>j. task w = Some (InJob j) \<longrightarrow> \<not> catches_cancel j"
  have h: "history (run ins (fst (stop closing w))) =
       history w @ map (\<lambda>j. Raised (job_id j) CancelledError) (in_flight w)"
    using stop_facts(2) [OF a, of closing] stop_facts(3) [OF a, of closing]
    by (simp add: run_history_idle)
  have "began (map (\<lambda>j. Raised (job_id j) CancelledError) (in_flight w)) = []"
    by (simp add: in_flight_def split: option.splits task_state.splits)
  then have b: "began (history (run ins (fst (stop closing w)))) = began (history w)"
    by (simp add: h began_append)
  show "snd (stop closing w) \<noteq> Still_awaiting
   \<and> began (history (run ins (fst (stop closing w)))) = began (history w)
   \<and> history (run ins (fst (stop closing w))) =
       history w @ map (\<lambda>j. Raised (job_id j) CancelledError) (in_flight w)
   \<and> (task w \<noteq> Some Created \<and> (\<forall>e. task w \<noteq> Some (Finished (Some e))) \<longrightarrow>
        snd (stop closing w) = Stop_returned \<and> queue (fst (stop closing w)) = [])"
    using stop_facts(1) [OF a, of closing] b h stop_facts(4) [OF a, of closing]
    by (intro conjI)
qed

text \<open>
  C7 as stated fails: job 1 is in flight when the application shuts down and catches the
  cancellation; it then returns, the loop takes job 2, which was only queued when
  \<open>stop\<close> was invoked, and job 2 begins while \<open>stop\<close> is still awaiting the task.
\<close>

theorem nothing_begins_after_stop_counterexample:
  "run [Put \<lparr>job_id = 1, outcome = None, catches_cancel = True\<rparr>,
        Put \<lparr>job_id = 2, outcome = None, catches_cancel = False\<rparr>,
        Resume, Resume]
       (start (AsyncWorker_init :: nat AsyncWorker))
   = \<lparr>queue = [\<lparr>job_id = 2, outcome = None, catches_cancel = False\<rparr>],
      task = Some (InJob \<lparr>job_id = 1, outcome = None, catches_cancel = True\<rparr>),
      history = [Began 1]\<rparr>
   \<and> lifespan [Put \<lparr>job_id = 1, outcome = None, catches_cancel = True\<rparr>,
               Put \<lparr>job_id = 2, outcome = None, catches_cancel = False\<rparr>,
               Resume, Resume]
              [Resume, Resume]
   = (\<lparr>queue = [],
       task = Some (InJob \<lparr>job_id = 2 :: nat, outcome = None, catches_cancel = False\<rparr>),
       history = [Began 1, Returned 1, Began 2]\<rparr>,
      Still_awaiting)"
  by (simp add: lifespan_def stop_def cancel_def task_result_def start_def
      AsyncWorker_init_def put_def worker_def end_event_def)

theorem nothing_begins_after_stop_witness:
  "began (history (run [Put \<lparr>job_id = 4, outcome = None, catches_cancel = False\<rparr>,
                        Resume, Resume, Resume]
      (fst (lifespan [Put \<lparr>job_id = 1, outcome = None, catches_cancel = False\<rparr>,
                      Put \<lparr>job_id = 2, outcome = None, catches_cancel = False\<rparr>,
                      Put \<lparr>job_id = 3 :: nat, outcome = None, catches_cancel = False\<rparr>,
                      Resume, Resume, Resume, Resume]
                     [Resume])))) = [1, 2]
   \<and> lifespan [Put \<lparr>job_id = 1, outcome = None, catches_cancel = False\<rparr>,
               Put \<lparr>job_id = 2, outcome = None, catches_cancel = False\<rparr>,
               Put \<lparr>job_id = 3 :: nat, outcome = None, catches_cancel = False\<rparr>,
               Resume, Resume, Resume, Resume]
              [Resume]
     = (\<lparr>queue = [], task = Some (Finished None),
         history = [Began 1, Returned 1, Began 2, Raised 2 CancelledError]\<rparr>, Stop_returned)"
proof -
  let ?ins = "[Put \<lparr>job_id = 1, outcome = None, catches_cancel = False\<rparr>,
               Put \<lparr>job_id = 2, outcome = None, catches_cancel = False\<rparr>,
               Put \<lparr>job_id = 3 :: nat, outcome = None, catches_cancel = False\<rparr>,
               Resume, Resume, Resume, Resume]"
  let ?more = "[Put \<lparr>job_id = 4 :: nat, outcome = None, catches_cancel = False\<rparr>,
                Resume, Resume, Resume]"
  let ?w = "run ?ins (start AsyncWorker_init)"
  have w: "?w = \<lparr>queue = [\<lparr>job_id = 3, outcome = None, catches_cancel = False\<rparr>],
                  task = Some (InJob \<lparr>job_id = 2, outcome = None, catches_cancel = False\<rparr>),
                  history = [Began 1, Returned 1, Began 2]\<rparr>"
    by (simp add: start_def AsyncWorker_init_def put_def worker_def end_event_def)
  have pre: "\<forall>j. task ?w = Some (InJob j) \<longrightarrow> \<not> catches_cancel j"
    unfolding w by simp
  note t = nothing_begins_after_stop [of ?w "[Resume]" ?more, THEN mp, OF pre]
  have b: "began (history (run ?more (fst (stop [Resume] ?w)))) = [1, 2]"
    using t [THEN conjunct2, THEN conjunct1] unfolding w by simp
  have h: "history (run ?more (fst (stop [Resume] ?w))) =
      [Began 1, Returned 1, Began 2, Raised 2 CancelledError]"
    using t [THEN conjunct2, THEN conjunct2, THEN conjunct1] unfolding w
    by (simp add: in_flight_def)
  have rq: "snd (stop [Resume] ?w) = Stop_returned \<and> queue (fst (stop [Resume] ?w)) = []"
    using t [THEN conjunct2, THEN conjunct2, THEN conjunct2] unfolding w by simp
  have l: "lifespan ?ins [Resume] = (\<lparr>queue = [], task = Some (Finished None),
         history = [Began 1, Returned 1, Began 2, Raised 2 CancelledError]\<rparr>, Stop_returned)"
    unfolding lifespan_def w
    by (simp add: stop_def cancel_def task_result_def after_await_def)
  show ?thesis using b l unfolding lifespan_def by (intro conjI)
qed

end
